theory Spec2Isabelle
  imports Main "HOL-Library.Word"
begin

unbundle bit_operations_syntax

section \<open>Bytes and little-endian fields\<close>

text \<open>
  A Python \<^verbatim>\<open>bytes\<close> object is a list of 8-bit values. The integers the scripts
  compute from them are unbounded Python integers, hence \<^typ>\<open>int\<close>.
\<close>

type_synonym byte = "8 word"

text \<open>
  \<^verbatim>\<open>struct.unpack_from("<H", buf, off)\<close> and \<^verbatim>\<open>"<I"\<close>: the little-endian value of
  the 2 (4) bytes at offset \<open>off\<close>. Every call in the scripts is preceded by a length
  check (or by \<^verbatim>\<open>read_exact\<close>, which returns exactly the requested number of bytes),
  so the slice always has the full width and \<^verbatim>\<open>struct.error\<close> is never raised.
\<close>

fun le_uint :: "byte list \<Rightarrow> int" where
  "le_uint [] = 0"
| "le_uint (b # bs) = uint b + 256 * le_uint bs"

definition unpack_H :: "byte list \<Rightarrow> nat \<Rightarrow> int" where
  "unpack_H buf off = le_uint (take 2 (drop off buf))"

definition unpack_I :: "byte list \<Rightarrow> nat \<Rightarrow> int" where
  "unpack_I buf off = le_uint (take 4 (drop off buf))"

text \<open>\<^verbatim>\<open>"<h"\<close>: the same two bytes read as a two's complement 16-bit integer.\<close>

definition unpack_h :: "byte list \<Rightarrow> nat \<Rightarrow> int" where
  "unpack_h buf off =
     (let u = unpack_H buf off in if u \<ge> 0x8000 then u - 0x10000 else u)"

section \<open>The two checksums\<close>

text \<open>
  \<^verbatim>\<open>crc16\<close> of the serial scripts (CCITT, polynomial 0x1021, initial value 0xFFFF,
  most significant bit first). The Python works on unbounded integers and masks to
  16 bits once per byte, after the eight shifts; the model does the same.
\<close>

definition crc16_shift :: "int \<Rightarrow> int" where
  "crc16_shift crc =
     (if crc AND 0x8000 \<noteq> 0 then push_bit 1 crc XOR 0x1021 else push_bit 1 crc)"

definition crc16_byte :: "int \<Rightarrow> byte \<Rightarrow> int" where
  "crc16_byte crc b = ((crc16_shift ^^ 8) (crc XOR push_bit 8 (uint b))) AND 0xFFFF"

definition crc16 :: "byte list \<Rightarrow> int" where
  "crc16 data = foldl crc16_byte 0xFFFF data"

text \<open>
  \<^verbatim>\<open>crc16_ibm\<close> of the RPC scripts (reflected, polynomial 0xA001, initial value 0);
  the mask is applied once, on return.
\<close>

definition crc16_ibm_shift :: "int \<Rightarrow> int" where
  "crc16_ibm_shift crc =
     (if crc AND 1 \<noteq> 0 then drop_bit 1 crc XOR 0xA001 else drop_bit 1 crc)"

definition crc16_ibm_byte :: "int \<Rightarrow> byte \<Rightarrow> int" where
  "crc16_ibm_byte crc b = (crc16_ibm_shift ^^ 8) (crc XOR uint b)"

definition crc16_ibm :: "byte list \<Rightarrow> int" where
  "crc16_ibm data = foldl crc16_ibm_byte 0 data AND 0xFFFF"

section \<open>Sequence tracking\<close>

text \<open>
  The four lines shared by the serial loops and by \<^verbatim>\<open>RPC_capture.run_capture\<close>:
  \<^verbatim>\<open>
  if last_seq is not None:
      expected = (last_seq + 1) & 0xFFFFFFFF
      if seq_no != expected:
          seq_errors += 1
  last_seq = seq_no
  \<close>
  \<open>seq_gap\<close> is the condition under which the counter is incremented.
\<close>

definition seq_gap :: "int option \<Rightarrow> int \<Rightarrow> bool" where
  "seq_gap last_seq seq_no =
     (case last_seq of
        None \<Rightarrow> False
      | Some l \<Rightarrow> seq_no \<noteq> (l + 1) AND 0xFFFFFFFF)"

definition track_seq :: "int option \<Rightarrow> nat \<Rightarrow> int \<Rightarrow> int option \<times> nat" where
  "track_seq last_seq seq_errors seq_no =
     (Some seq_no, if seq_gap last_seq seq_no then seq_errors + 1 else seq_errors)"

section \<open>The serial link\<close>

text \<open>
  The serial port is modelled by the bytes it will still deliver: they arrive without
  delay, and once they are used up the link stalls, so that \<^verbatim>\<open>ser.read(n)\<close> returns up
  to \<open>n\<close> of the pending bytes, and \<^verbatim>\<open>b""\<close> (its timeout) when none is left.
\<close>

definition ser_read :: "nat \<Rightarrow> byte list \<Rightarrow> byte list \<times> byte list" where
  "ser_read n ser = (take n ser, drop n ser)"

text \<open>
  \<^verbatim>\<open>read_exact\<close>: \<open>None\<close> stands for the \<^verbatim>\<open>TimeoutError\<close> it raises. The second
  component is the port after the call.
\<close>

function read_exact_loop :: "byte list \<Rightarrow> nat \<Rightarrow> byte list \<Rightarrow> byte list option \<times> byte list" where
  "read_exact_loop buf n ser =
     (if length buf < n then
        (if fst (ser_read (n - length buf) ser) = [] then (None, snd (ser_read (n - length buf) ser))
         else read_exact_loop (buf @ fst (ser_read (n - length buf) ser)) n
                (snd (ser_read (n - length buf) ser)))
      else (Some buf, ser))"
  by pat_completeness auto
termination
  by (relation "measure (\<lambda>(buf, n, ser). n - length buf)") (auto simp: ser_read_def min_def neq_Nil_conv)

declare read_exact_loop.simps [simp del]

definition read_exact :: "byte list \<Rightarrow> nat \<Rightarrow> byte list option \<times> byte list" where
  "read_exact ser n = read_exact_loop [] n ser"

text \<open>
  \<^verbatim>\<open>sync\<close> scans until its deadline. Wall-clock time is replaced by the number of
  loop iterations that fit before the deadline (the first argument): every iteration
  takes time, a byte read or a read timeout. \<open>prev\<close> is \<open>None\<close> for \<^verbatim>\<open>b""\<close>.
\<close>

fun sync_loop :: "nat \<Rightarrow> byte option \<Rightarrow> byte list \<Rightarrow> bool \<times> byte list" where
  "sync_loop 0 prev ser = (False, ser)"
| "sync_loop (Suc k) prev [] = sync_loop k prev []"
| "sync_loop (Suc k) prev (b # ser) =
     (if prev = Some 0x5A \<and> b = 0xA5 then (True, ser) else sync_loop k (Some b) ser)"

definition sync :: "nat \<Rightarrow> byte list \<Rightarrow> bool \<times> byte list" where
  "sync iters ser = sync_loop iters None ser"

text \<open>
  The two serial scripts (\<^verbatim>\<open>ADC_csv_gather.py\<close> and
  \<^verbatim>\<open>ADC_readcsv_reducedclipping.py\<close>) differ in their constants and in the
  \<^verbatim>\<open>gap_cycles\<close> header field, which adds a \<^verbatim>\<open>gap_flag\<close> column to the rows.
  \<open>gather_format\<close> and \<open>reducedclipping_format\<close> are the two scripts; facts stated
  for an arbitrary format hold for both.
\<close>

record serial_format =
  HDR_AFTER_MAGIC :: nat
  FRAME_SAMPLES :: int
  gap_cycles :: bool

definition gather_format :: serial_format where
  "gather_format = \<lparr>HDR_AFTER_MAGIC = 6, FRAME_SAMPLES = 512, gap_cycles = False\<rparr>"

definition reducedclipping_format :: serial_format where
  "reducedclipping_format = \<lparr>HDR_AFTER_MAGIC = 10, FRAME_SAMPLES = 16384, gap_cycles = True\<rparr>"

definition MAGIC_B :: "byte list" where
  "MAGIC_B = [0x5A, 0xA5]"

text \<open>
  The state of \<^verbatim>\<open>run_capture\<close>: its local variables, the port, the rows written to the
  CSV file, and the number of calls of \<^verbatim>\<open>sync\<close> (each prints "Syncing to stream...").
  A row is \<^verbatim>\<open>[total, raw]\<close>, with \<^verbatim>\<open>flag\<close> appended in the gap-tracking format; the
  voltage column and \<^verbatim>\<open>total_gap_us\<close> are floating-point and left out.
\<close>

record capture =
  ser :: "byte list"
  total :: nat
  bad_crc :: nat
  seq_errors :: nat
  last_seq :: "int option"
  rows :: "int list list"
  syncs :: nat

text \<open>
  The first half of the loop body, from the header to the checksum comparison. The
  result says which way the body goes on: \<open>Frame seq_no nsamp gap_cyc payload\<close> when
  the checksum matched.
\<close>

datatype decoded = TimedOut | BadHeader | BadCrc | Frame int int int "byte list"

definition decode_frame :: "serial_format \<Rightarrow> byte list \<Rightarrow> decoded \<times> byte list" where
  "decode_frame fmt ser0 =
     (case read_exact ser0 (HDR_AFTER_MAGIC fmt) of
        (None, ser1) \<Rightarrow> (TimedOut, ser1)
      | (Some hdr, ser1) \<Rightarrow>
          (let seq_no = unpack_I hdr 0;
               nsamp = unpack_H hdr 4;
               gap_cyc = (if gap_cycles fmt then unpack_I hdr 6 else 0)
           in if nsamp = 0 \<or> nsamp > FRAME_SAMPLES fmt then (BadHeader, ser1)
              else (case read_exact ser1 (nat (nsamp * 2)) of
                      (None, ser2) \<Rightarrow> (TimedOut, ser2)
                    | (Some payload, ser2) \<Rightarrow>
                        (case read_exact ser2 2 of
                           (None, ser3) \<Rightarrow> (TimedOut, ser3)
                         | (Some crc_raw, ser3) \<Rightarrow>
                             (if crc16 (MAGIC_B @ hdr @ payload) \<noteq> unpack_H crc_raw 0
                              then (BadCrc, ser3)
                              else (Frame seq_no nsamp gap_cyc payload, ser3))))))"

text \<open>\<^verbatim>\<open>if not sync(ser, timeout=2.0): break\<close>, followed by the next iteration.\<close>

datatype control = Continue | Break | Raise

definition resync :: "nat \<Rightarrow> capture \<Rightarrow> control \<times> capture" where
  "resync iters s =
     (case sync iters (ser s) of
        (ok, ser') \<Rightarrow> (if ok then Continue else Break, s\<lparr>ser := ser', syncs := syncs s + 1\<rparr>))"

text \<open>\<^verbatim>\<open>struct.unpack_from(f"<{nsamp}h", payload)\<close>\<close>

definition unpack_samples :: "int \<Rightarrow> byte list \<Rightarrow> int list" where
  "unpack_samples nsamp payload = map (\<lambda>i. unpack_h payload (2 * i)) [0..<nat nsamp]"

text \<open>The loop over the samples: one row each, the raw value masked to 12 bits.\<close>

fun write_rows :: "serial_format \<Rightarrow> int \<Rightarrow> nat \<Rightarrow> nat \<Rightarrow> int list \<Rightarrow> int list list" where
  "write_rows fmt gap_flag tot i [] = []"
| "write_rows fmt gap_flag tot i (s # samples) =
     (let raw = s AND 0xFFF;
          flag = (if i = 0 then gap_flag else 0)
      in ([int tot, raw] @ (if gap_cycles fmt then [flag] else []))
         # write_rows fmt gap_flag (tot + 1) (i + 1) samples)"

definition capture_iter :: "serial_format \<Rightarrow> nat \<Rightarrow> capture \<Rightarrow> control \<times> capture" where
  "capture_iter fmt iters s =
     (case decode_frame fmt (ser s) of
        (TimedOut, ser') \<Rightarrow> (Raise, s\<lparr>ser := ser'\<rparr>)
      | (BadHeader, ser') \<Rightarrow> resync iters (s\<lparr>ser := ser'\<rparr>)
      | (BadCrc, ser') \<Rightarrow> resync iters (s\<lparr>ser := ser', bad_crc := bad_crc s + 1\<rparr>)
      | (Frame seq_no nsamp gap_cyc payload, ser') \<Rightarrow>
          (let tr = track_seq (last_seq s) (seq_errors s) seq_no;
               gap_flag = (if gap_cyc > 0 \<and> total s > 0 then 1 else 0);
               samples = unpack_samples nsamp payload;
               s1 = s\<lparr>ser := ser', last_seq := fst tr, seq_errors := snd tr,
                      rows := rows s @ write_rows fmt gap_flag (total s) 0 samples,
                      total := total s + length samples\<rparr>
           in (case read_exact ser' 2 of
                 (None, ser'') \<Rightarrow> (Raise, s1\<lparr>ser := ser''\<rparr>)
               | (Some nxt, ser'') \<Rightarrow>
                   (if nxt \<noteq> MAGIC_B then resync iters (s1\<lparr>ser := ser''\<rparr>)
                    else (Continue, s1\<lparr>ser := ser''\<rparr>)))))"

text \<open>
  The \<^verbatim>\<open>while time.monotonic() < end_time\<close> loop, with the number of iterations that
  fit into the duration as its bound, and the way it was left: the duration elapsed,
  a \<^verbatim>\<open>break\<close> after a failed resync, or \<^verbatim>\<open>TimeoutError\<close> caught outside the loop.
  (\<^verbatim>\<open>KeyboardInterrupt\<close> comes from outside and is not modelled.)
\<close>

datatype ending = DurationElapsed | SyncLost | SerialTimeout

fun capture_loop :: "serial_format \<Rightarrow> nat \<Rightarrow> nat \<Rightarrow> capture \<Rightarrow> ending \<times> capture" where
  "capture_loop fmt iters 0 s = (DurationElapsed, s)"
| "capture_loop fmt iters (Suc n) s =
     (case capture_iter fmt iters s of
        (Continue, s') \<Rightarrow> capture_loop fmt iters n s'
      | (Break, s') \<Rightarrow> (SyncLost, s')
      | (Raise, s') \<Rightarrow> (SerialTimeout, s'))"

text \<open>
  \<^verbatim>\<open>run_capture\<close>: \<open>lock_iters\<close> and \<open>resync_iters\<close> bound the scans of the initial
  \<^verbatim>\<open>sync(ser, timeout=5.0)\<close> and of the later \<^verbatim>\<open>sync(ser, timeout=2.0)\<close>, \<open>n\<close> bounds
  the main loop. \<open>None\<close>: the initial sync failed and the function returned at once.
\<close>

definition run_capture ::
  "serial_format \<Rightarrow> nat \<Rightarrow> nat \<Rightarrow> nat \<Rightarrow> byte list \<Rightarrow> (ending \<times> capture) option" where
  "run_capture fmt lock_iters resync_iters n input =
     (case sync lock_iters input of
        (False, ser') \<Rightarrow> None
      | (True, ser') \<Rightarrow>
          Some (capture_loop fmt resync_iters n
                  \<lparr>ser = ser', total = 0, bad_crc = 0, seq_errors = 0, last_seq = None,
                   rows = [], syncs = 1\<rparr>))"

section \<open>The RPC responses\<close>

text \<open>
  \<^verbatim>\<open>Bridge.call\<close> returns an object of no fixed type. \<open>NoResp\<close> is \<^verbatim>\<open>None\<close> (or any other
  falsy object that is neither bytes nor text), \<open>Bytes\<close> a \<^verbatim>\<open>bytes\<close> or \<^verbatim>\<open>bytearray\<close>,
  \<open>Text\<close> anything else, given by its \<^verbatim>\<open>str()\<close> (characters below 256).
\<close>

datatype resp = NoResp | Bytes "byte list" | Text string

text \<open>\<^verbatim>\<open>hex_chars = set(b"0123456789abcdefABCDEF")\<close>\<close>

definition hex_chars :: "byte list" where
  "hex_chars = map of_char ''0123456789abcdefABCDEF''"

text \<open>
  \<^verbatim>\<open>bytes.fromhex\<close> of the Python library, as its documentation describes it: two
  hexadecimal digits per byte, ASCII whitespace skipped in front of a pair, and
  \<^verbatim>\<open>ValueError\<close> (\<open>None\<close>) for anything else.
\<close>

definition hex_digit :: "byte \<Rightarrow> byte option" where
  "hex_digit c =
     map_of (zip hex_chars [0, 1, 2, 3, 4, 5, 6, 7, 8, 9, 10, 11, 12, 13, 14, 15,
                            10, 11, 12, 13, 14, 15]) c"

definition ascii_space :: "byte \<Rightarrow> bool" where
  "ascii_space c = (c \<in> set [0x20, 0x09, 0x0A, 0x0B, 0x0C, 0x0D])"

fun fromhex :: "byte list \<Rightarrow> byte list option" where
  "fromhex [] = Some []"
| "fromhex [c] = (if ascii_space c then Some [] else None)"
| "fromhex (c # d # cs) =
     (if ascii_space c then fromhex (d # cs)
      else (case (hex_digit c, hex_digit d) of
              (Some h, Some l) \<Rightarrow> map_option ((#) (16 * h + l)) (fromhex cs)
            | _ \<Rightarrow> None))"

text \<open>\<^verbatim>\<open>str.strip()\<close>: the characters below 256 for which \<^verbatim>\<open>str.isspace\<close> holds.\<close>

definition str_space :: "byte \<Rightarrow> bool" where
  "str_space c =
     (c \<in> set [0x09, 0x0A, 0x0B, 0x0C, 0x0D, 0x1C, 0x1D, 0x1E, 0x1F, 0x20, 0x85, 0xA0])"

definition strip :: "byte list \<Rightarrow> byte list" where
  "strip t = rev (dropWhile str_space (rev (dropWhile str_space t)))"

text \<open>
  The first lines of both \<^verbatim>\<open>parse_frame\<close> functions, which are the same: from the
  response to the buffer \<^verbatim>\<open>buf\<close>. \<open>None\<close> is the early return of the failure value.
\<close>

definition response_buf :: "resp \<Rightarrow> byte list option" where
  "response_buf resp =
     (case resp of
        NoResp \<Rightarrow> None
      | Bytes raw \<Rightarrow>
          (if raw = [] then None
           else if raw \<noteq> [] \<and> length raw mod 2 = 0 \<and> list_all (\<lambda>b. b \<in> set hex_chars) raw
           then (case fromhex raw of Some buf \<Rightarrow> Some buf | None \<Rightarrow> Some raw)
           else Some raw)
      | Text t \<Rightarrow>
          (if t = [] then None else fromhex (strip (map of_char t))))"

subsection \<open>\<^verbatim>\<open>RPC_capture.py\<close>: count(2), seq(4), samples, crc16(2)\<close>

text \<open>\<^verbatim>\<open>if buf and buf[0] == 0x21: buf = buf[1:]\<close>\<close>

definition rpc_strip :: "byte list \<Rightarrow> byte list" where
  "rpc_strip buf = (if buf \<noteq> [] \<and> hd buf = 0x21 then tl buf else buf)"

definition rpc_parse_buf :: "byte list \<Rightarrow> int option \<times> int list option" where
  "rpc_parse_buf buf0 =
     (let buf = rpc_strip buf0
      in if length buf < 8 then (None, None)
         else (let count = unpack_H buf 0;
                   seq = unpack_I buf 2;
                   expected_len = 6 + count * 2 + 2
               in if int (length buf) \<noteq> expected_len then (None, None)
                  else if crc16_ibm (take (length buf - 2) buf) \<noteq> unpack_H buf (length buf - 2)
                  then (None, None)
                  else (Some seq,
                        Some (map (\<lambda>i. unpack_H buf (6 + i * 2) AND 0x3FFF) [0..<nat count]))))"

definition rpc_parse_frame :: "resp \<Rightarrow> int option \<times> int list option" where
  "rpc_parse_frame resp =
     (case response_buf resp of None \<Rightarrow> (None, None) | Some buf \<Rightarrow> rpc_parse_buf buf)"

text \<open>
  The state of its \<^verbatim>\<open>run_capture\<close> (rows \<^verbatim>\<open>[total, s]\<close>, voltage left out) and one
  iteration of the loop on the response that \<^verbatim>\<open>Bridge.call\<close> returned. The session is
  the loop over the responses received before the duration has elapsed.
\<close>

record rpc_capture =
  rpc_total :: nat
  rpc_bad :: nat
  rpc_empty :: nat
  rpc_last_seq :: "int option"
  rpc_seq_errors :: nat
  rpc_rows :: "int list list"

fun rpc_write_rows :: "nat \<Rightarrow> int list \<Rightarrow> int list list" where
  "rpc_write_rows tot [] = []"
| "rpc_write_rows tot (s # samples) = [int tot, s] # rpc_write_rows (tot + 1) samples"

definition rpc_iter :: "rpc_capture \<Rightarrow> resp \<Rightarrow> rpc_capture" where
  "rpc_iter s resp =
     (case rpc_parse_frame resp of
        (seq, None) \<Rightarrow> s\<lparr>rpc_empty := rpc_empty s + 1\<rparr>
      | (None, Some samples) \<Rightarrow> s\<lparr>rpc_bad := rpc_bad s + 1\<rparr>
      | (Some seq, Some samples) \<Rightarrow>
          (let tr = track_seq (rpc_last_seq s) (rpc_seq_errors s) seq
           in s\<lparr>rpc_last_seq := fst tr, rpc_seq_errors := snd tr,
                 rpc_rows := rpc_rows s @ rpc_write_rows (rpc_total s) samples,
                 rpc_total := rpc_total s + length samples\<rparr>))"

definition rpc_run_capture :: "resp list \<Rightarrow> rpc_capture" where
  "rpc_run_capture resps =
     foldl rpc_iter \<lparr>rpc_total = 0, rpc_bad = 0, rpc_empty = 0, rpc_last_seq = None,
                     rpc_seq_errors = 0, rpc_rows = []\<rparr> resps"

subsection \<open>\<^verbatim>\<open>RPC_sample_csv.py\<close>: count(1), t0(4), count times (sample(2), dt(1)), crc16(2)\<close>

definition MAX_SAMPLES :: int where
  "MAX_SAMPLES = 255"

text \<open>The loop that collects the samples and accumulates the timestamps.\<close>

fun ecg_samples :: "byte list \<Rightarrow> nat \<Rightarrow> nat \<Rightarrow> int \<Rightarrow> int list \<times> int list" where
  "ecg_samples buf 0 offset prev_t = ([], [])"
| "ecg_samples buf (Suc k) offset prev_t =
     (let sample = unpack_H buf offset;
          t = prev_t + uint (buf ! (offset + 2));
          r = ecg_samples buf k (offset + 3) t
      in (sample # fst r, t # snd r))"

text \<open>\<^verbatim>\<open>if buf and buf[0] == 0x21 and len(buf) > 1: buf = buf[1:]\<close>\<close>

definition ecg_strip :: "byte list \<Rightarrow> byte list" where
  "ecg_strip buf = (if buf \<noteq> [] \<and> hd buf = 0x21 \<and> length buf > 1 then tl buf else buf)"

definition ecg_parse_buf :: "byte list \<Rightarrow> int list \<times> int list" where
  "ecg_parse_buf buf0 =
     (let buf = ecg_strip buf0
      in if length buf < 7 then ([], [])
         else (let count = uint (buf ! 0)
               in if count = 0 \<or> count > MAX_SAMPLES then ([], [])
                  else if int (length buf) \<noteq> 1 + 4 + count * 3 + 2 then ([], [])
                  else if crc16_ibm (take (length buf - 2) buf)
                          \<noteq> (uint (buf ! (length buf - 2))
                               OR push_bit 8 (uint (buf ! (length buf - 1))))
                  then ([], [])
                  else ecg_samples buf (nat count) 5 (unpack_I buf 1)))"

definition ecg_parse_frame :: "resp \<Rightarrow> int list \<times> int list" where
  "ecg_parse_frame resp =
     (case response_buf resp of None \<Rightarrow> ([], []) | Some buf \<Rightarrow> ecg_parse_buf buf)"

text \<open>Its \<^verbatim>\<open>run_capture\<close>: rows \<^verbatim>\<open>[total, ts, raw]\<close>, one counter for every failure.\<close>

record ecg_capture =
  ecg_total :: nat
  ecg_bad :: nat
  ecg_rows :: "int list list"

fun ecg_write_rows :: "nat \<Rightarrow> (int \<times> int) list \<Rightarrow> int list list" where
  "ecg_write_rows tot [] = []"
| "ecg_write_rows tot ((raw, ts) # rest) = [int tot, ts, raw] # ecg_write_rows (tot + 1) rest"

definition ecg_iter :: "ecg_capture \<Rightarrow> resp \<Rightarrow> ecg_capture" where
  "ecg_iter s resp =
     (case ecg_parse_frame resp of
        (samples, timestamps) \<Rightarrow>
          (if samples = [] then s\<lparr>ecg_bad := ecg_bad s + 1\<rparr>
           else s\<lparr>ecg_rows := ecg_rows s @ ecg_write_rows (ecg_total s) (zip samples timestamps),
                  ecg_total := ecg_total s + length (zip samples timestamps)\<rparr>))"

definition ecg_run_capture :: "resp list \<Rightarrow> ecg_capture" where
  "ecg_run_capture resps = foldl ecg_iter \<lparr>ecg_total = 0, ecg_bad = 0, ecg_rows = []\<rparr> resps"

section \<open>Notions used to state the properties\<close>

text \<open>
  The sequence numbers of the responses that \<^verbatim>\<open>parse_frame\<close> of \<^verbatim>\<open>RPC_capture.py\<close>
  accepts, in the order of the session.
\<close>

definition rpc_accepted :: "resp list \<Rightarrow> int list" where
  "rpc_accepted resps =
     concat (map (\<lambda>resp. case rpc_parse_frame resp of (Some seq, Some samples) \<Rightarrow> [seq] | _ \<Rightarrow> [])
               resps)"

text \<open>
  The shape of a stream. \<open>contains_magic\<close>: the two marker bytes occur next to each
  other. \<open>valid_frame\<close>: what follows a marker is a complete frame, a header with a
  sample count in range, as many samples, and the checksum of marker, header and
  payload. The other functions name the parts of such a frame.
\<close>

fun contains_magic :: "byte list \<Rightarrow> bool" where
  "contains_magic (a # b # bs) = ((a = 0x5A \<and> b = 0xA5) \<or> contains_magic (b # bs))"
| "contains_magic bs = False"

definition frame_hdr :: "serial_format \<Rightarrow> byte list \<Rightarrow> byte list" where
  "frame_hdr fmt f = take (HDR_AFTER_MAGIC fmt) f"

definition frame_seq :: "serial_format \<Rightarrow> byte list \<Rightarrow> int" where
  "frame_seq fmt f = unpack_I (frame_hdr fmt f) 0"

definition frame_nsamp :: "serial_format \<Rightarrow> byte list \<Rightarrow> int" where
  "frame_nsamp fmt f = unpack_H (frame_hdr fmt f) 4"

definition frame_gap :: "serial_format \<Rightarrow> byte list \<Rightarrow> int" where
  "frame_gap fmt f = (if gap_cycles fmt then unpack_I (frame_hdr fmt f) 6 else 0)"

definition frame_payload :: "serial_format \<Rightarrow> byte list \<Rightarrow> byte list" where
  "frame_payload fmt f = take (nat (frame_nsamp fmt f * 2)) (drop (HDR_AFTER_MAGIC fmt) f)"

definition frame_crc :: "serial_format \<Rightarrow> byte list \<Rightarrow> byte list" where
  "frame_crc fmt f = drop (HDR_AFTER_MAGIC fmt + nat (frame_nsamp fmt f * 2)) f"

definition valid_frame :: "serial_format \<Rightarrow> byte list \<Rightarrow> bool" where
  "valid_frame fmt f =
     (length f = HDR_AFTER_MAGIC fmt + nat (frame_nsamp fmt f * 2) + 2
      \<and> 0 < frame_nsamp fmt f \<and> frame_nsamp fmt f \<le> FRAME_SAMPLES fmt
      \<and> crc16 (MAGIC_B @ frame_hdr fmt f @ frame_payload fmt f) = unpack_H (frame_crc fmt f) 0)"

definition frame_samples :: "serial_format \<Rightarrow> byte list \<Rightarrow> int list" where
  "frame_samples fmt f = unpack_samples (frame_nsamp fmt f) (frame_payload fmt f)"

text \<open>
  Hex text read two digits at a time, the first digit the high half of the byte: what
  \<^verbatim>\<open>bytes.fromhex\<close> computes on a text made of hex digits only.
\<close>

fun unhex :: "byte list \<Rightarrow> byte list" where
  "unhex (c # d # cs) = (16 * the (hex_digit c) + the (hex_digit d)) # unhex cs"
| "unhex cs = []"

section \<open>Auxiliary facts\<close>

lemma read_exact_loop_eq:
  "read_exact_loop buf n bs =
     (if n \<le> length buf then (Some buf, bs)
      else if n \<le> length buf + length bs
      then (Some (buf @ take (n - length buf) bs), drop (n - length buf) bs)
      else (None, []))"
proof (induction buf n bs rule: read_exact_loop.induct)
  case (1 buf n bs)
  show ?case
  proof (cases "length buf < n")
    case False
    then show ?thesis by (subst read_exact_loop.simps) simp
  next
    case short: True
    show ?thesis
    proof (cases "bs = []")
      case True
      with short show ?thesis
        by (subst read_exact_loop.simps) (simp add: ser_read_def)
    next
      case False
      with short have ne: "fst (ser_read (n - length buf) bs) \<noteq> []"
        by (simp add: ser_read_def)
      have "read_exact_loop buf n bs =
            read_exact_loop (buf @ take (n - length buf) bs) n (drop (n - length buf) bs)"
        using short ne by (subst read_exact_loop.simps) (simp add: ser_read_def)
      also have "\<dots> = (if n \<le> length buf + length bs
          then (Some (buf @ take (n - length buf) bs), drop (n - length buf) bs)
          else (None, []))"
        unfolding "1.IH"[OF short ne, unfolded ser_read_def fst_conv snd_conv]
        using short by (simp add: min_def)
      finally show ?thesis using short by simp
    qed
  qed
qed

lemma read_exact_eq:
  "read_exact bs n = (if n \<le> length bs then (Some (take n bs), drop n bs) else (None, []))"
  by (simp add: read_exact_def read_exact_loop_eq)

lemma read_exact_append: "length a = n \<Longrightarrow> read_exact (a @ rest) n = (Some a, rest)"
  by (simp add: read_exact_eq)

lemma mask32: "(x::int) AND 0xFFFFFFFF = x mod 2 ^ 32"
  using take_bit_eq_mask[of 32 x] by (simp add: take_bit_eq_mod mask_eq_exp_minus_1)

lemma funpow8: "(f ^^ 8) x = f (f (f (f (f (f (f (f x)))))))"
  by (simp add: eval_nat_numeral)

lemmas crc_eval = crc16_def crc16_byte_def crc16_shift_def crc16_ibm_def crc16_ibm_byte_def
  crc16_ibm_shift_def funpow8

lemmas unpack_eval = unpack_H_def unpack_I_def unpack_h_def

lemma seq_gap_iff:
  "seq_gap prv seq_no \<longleftrightarrow> prv \<noteq> None \<and> seq_no \<noteq> (the prv + 1) mod 2 ^ 32"
  by (cases prv) (simp_all add: seq_gap_def mask32)

lemma le_uint_nonneg: "0 \<le> le_uint bs"
  by (induction bs) simp_all

lemma unpack_H_nonneg: "0 \<le> unpack_H buf off"
  by (simp add: unpack_H_def le_uint_nonneg)

lemma decode_frame_Frame:
  assumes "decode_frame fmt bs = (Frame seq_no nsamp gap_cyc payload, rest)"
  shows "\<exists>hdr crc_raw. bs = hdr @ payload @ crc_raw @ rest \<and> length hdr = HDR_AFTER_MAGIC fmt
           \<and> length payload = nat (nsamp * 2) \<and> length crc_raw = 2
           \<and> seq_no = unpack_I hdr 0 \<and> nsamp = unpack_H hdr 4
           \<and> 0 < nsamp \<and> nsamp \<le> FRAME_SAMPLES fmt
           \<and> crc16 (MAGIC_B @ hdr @ payload) = unpack_H crc_raw 0"
proof -
  let ?n = "HDR_AFTER_MAGIC fmt"
  let ?hdr = "take ?n bs"
  let ?b1 = "drop ?n bs"
  let ?m = "nat (unpack_H ?hdr 4 * 2)"
  let ?b2 = "drop ?m ?b1"
  from assms have h: "?n \<le> length bs"
    by (auto simp: decode_frame_def read_exact_eq split: if_splits)
  with assms have ns: "nsamp = unpack_H ?hdr 4" "0 < nsamp" "nsamp \<le> FRAME_SAMPLES fmt"
     and sq: "seq_no = unpack_I ?hdr 0"
    using unpack_H_nonneg[of ?hdr 4]
    by (auto simp: decode_frame_def read_exact_eq Let_def split: if_splits)
  have ns0: "unpack_H ?hdr 4 \<noteq> 0" "\<not> unpack_H ?hdr 4 > FRAME_SAMPLES fmt" using ns by auto
  from assms h ns0 have p: "?m \<le> length ?b1"
    by (auto simp: decode_frame_def read_exact_eq Let_def split: if_splits)
  from assms h ns0 p have c: "2 \<le> length ?b2"
    by (simp add: decode_frame_def read_exact_eq Let_def split: if_splits)
  from assms h ns0 p c have r: "payload = take ?m ?b1 \<and> rest = drop 2 ?b2
     \<and> crc16 (MAGIC_B @ ?hdr @ payload) = unpack_H (take 2 ?b2) 0"
    by (auto simp add: decode_frame_def read_exact_eq Let_def split: if_splits)
  have "bs = ?hdr @ take ?m ?b1 @ take 2 ?b2 @ drop 2 ?b2"
    by (simp only: append_take_drop_id)
  with r have "bs = ?hdr @ payload @ take 2 ?b2 @ rest"
    by simp
  moreover have "length ?hdr = ?n" "length payload = nat (nsamp * 2)" "length (take 2 ?b2) = 2"
    using h p c r ns by simp_all
  ultimately have "bs = ?hdr @ payload @ take 2 ?b2 @ rest \<and> length ?hdr = ?n
           \<and> length payload = nat (nsamp * 2) \<and> length (take 2 ?b2) = 2
           \<and> seq_no = unpack_I ?hdr 0 \<and> nsamp = unpack_H ?hdr 4
           \<and> 0 < nsamp \<and> nsamp \<le> FRAME_SAMPLES fmt
           \<and> crc16 (MAGIC_B @ ?hdr @ payload) = unpack_H (take 2 ?b2) 0"
    using r ns sq by blast
  then show ?thesis by blast
qed

lemma decode_frame_at:
  assumes "length hdr = HDR_AFTER_MAGIC fmt" "0 < unpack_H hdr 4"
    "unpack_H hdr 4 \<le> FRAME_SAMPLES fmt" "length payload = nat (unpack_H hdr 4 * 2)"
    "length crc_raw = 2"
  shows "decode_frame fmt (hdr @ payload @ crc_raw @ rest) =
           (if crc16 (MAGIC_B @ hdr @ payload) \<noteq> unpack_H crc_raw 0 then BadCrc
            else Frame (unpack_I hdr 0) (unpack_H hdr 4)
                   (if gap_cycles fmt then unpack_I hdr 6 else 0) payload, rest)"
  using assms by (simp add: decode_frame_def read_exact_eq Let_def)

lemma decode_frame_bad_header:
  assumes "length hdr = HDR_AFTER_MAGIC fmt" "unpack_H hdr 4 = 0 \<or> unpack_H hdr 4 > FRAME_SAMPLES fmt"
  shows "decode_frame fmt (hdr @ rest) = (BadHeader, rest)"
  using assms by (auto simp add: decode_frame_def read_exact_eq Let_def)

lemmas serial_eval = capture_iter_def decode_frame_def read_exact_eq gather_format_def
  reducedclipping_format_def MAGIC_B_def track_seq_def seq_gap_def unpack_samples_def
  resync_def sync_def

lemmas rpc_eval = rpc_parse_frame_def response_buf_def rpc_parse_buf_def rpc_strip_def
  hex_chars_def rpc_iter_def track_seq_def seq_gap_def

lemmas ecg_eval = ecg_parse_frame_def response_buf_def ecg_parse_buf_def ecg_strip_def
  hex_chars_def MAX_SAMPLES_def ecg_iter_def

lemma rpc_parse_buf_Some:
  assumes "rpc_parse_buf buf0 = (Some seq, Some samples)"
  shows "crc16_ibm (take (length (rpc_strip buf0) - 2) (rpc_strip buf0))
           = unpack_H (rpc_strip buf0) (length (rpc_strip buf0) - 2)"
  using assms by (simp add: rpc_parse_buf_def Let_def split: if_splits)

lemma rpc_parse_frame_Some:
  assumes "rpc_parse_frame resp = (Some seq, Some samples)"
  shows "\<exists>buf0. response_buf resp = Some buf0 \<and> rpc_parse_buf buf0 = (Some seq, Some samples)"
  using assms by (simp add: rpc_parse_frame_def split: option.splits)

lemma or_shift: "uint (a::byte) OR push_bit 8 (uint (b::byte)) = uint a + 256 * uint b"
proof -
  have "uint a + push_bit 8 (uint b) = uint a OR push_bit 8 (uint b)"
    by (rule disjunctive_add_eq_or)
      (auto simp: bit_eq_iff bit_simps bit_uint_iff dest: bit_imp_le_length)
  then show ?thesis by (simp add: push_bit_eq_mult)
qed

lemma drop_last2:
  "2 \<le> length xs \<Longrightarrow> drop (length xs - 2) xs = [xs ! (length xs - 2), xs ! (length xs - 1)]"
  by (auto simp: list_eq_iff_nth_eq less_Suc_eq numeral_2_eq_2)

lemma ecg_parse_buf_nonempty:
  assumes "fst (ecg_parse_buf buf0) \<noteq> []"
  shows "crc16_ibm (take (length (ecg_strip buf0) - 2) (ecg_strip buf0))
           = unpack_H (ecg_strip buf0) (length (ecg_strip buf0) - 2)"
proof -
  let ?buf = "ecg_strip buf0"
  from assms have len: "\<not> length ?buf < 7"
    and crc: "crc16_ibm (take (length ?buf - 2) ?buf)
        = (uint (?buf ! (length ?buf - 2)) OR push_bit 8 (uint (?buf ! (length ?buf - 1))))"
    by (auto simp: ecg_parse_buf_def Let_def split: if_splits)
  from len have "drop (length ?buf - 2) ?buf = [?buf ! (length ?buf - 2), ?buf ! (length ?buf - 1)]"
    by (intro drop_last2) simp
  then have "unpack_H ?buf (length ?buf - 2)
      = uint (?buf ! (length ?buf - 2)) + 256 * uint (?buf ! (length ?buf - 1))"
    by (simp add: unpack_H_def)
  with crc show ?thesis by (simp add: or_shift)
qed

section \<open>The claims\<close>

text \<open>
  C1. A frame is accepted only if the CRC computed over the covered bytes equals the
  transmitted little-endian checksum: CCITT over magic, header and payload in the
  serial formats, IBM over the whole blob without its last two bytes in the RPC formats.
  A candidate whose checksum differs is rejected.
\<close>

theorem accepted_frames_have_matching_crc:
  "(decode_frame fmt bs = (Frame seq_no nsamp gap_cyc payload, rest) \<longrightarrow>
      (\<exists>hdr crc_raw. bs = hdr @ payload @ crc_raw @ rest \<and> length hdr = HDR_AFTER_MAGIC fmt
          \<and> length payload = nat (nsamp * 2) \<and> length crc_raw = 2
          \<and> crc16 (MAGIC_B @ hdr @ payload) = unpack_H crc_raw 0))
   \<and> (length hdr' = HDR_AFTER_MAGIC fmt \<and> length payload' = nat (unpack_H hdr' 4 * 2)
        \<and> length crc_raw' = 2 \<and> crc16 (MAGIC_B @ hdr' @ payload') \<noteq> unpack_H crc_raw' 0 \<longrightarrow>
      fst (decode_frame fmt (hdr' @ payload' @ crc_raw' @ rest')) \<in> {BadHeader, BadCrc})
   \<and> (rpc_parse_frame resp = (Some seq, Some samples) \<longrightarrow>
      (\<exists>buf0. response_buf resp = Some buf0 \<and>
         crc16_ibm (take (length (rpc_strip buf0) - 2) (rpc_strip buf0))
           = unpack_H (rpc_strip buf0) (length (rpc_strip buf0) - 2)))
   \<and> (fst (ecg_parse_frame resp') \<noteq> [] \<longrightarrow>
      (\<exists>buf0. response_buf resp' = Some buf0 \<and>
         crc16_ibm (take (length (ecg_strip buf0) - 2) (ecg_strip buf0))
           = unpack_H (ecg_strip buf0) (length (ecg_strip buf0) - 2)))"
proof (intro conjI impI)
  assume "decode_frame fmt bs = (Frame seq_no nsamp gap_cyc payload, rest)"
  from decode_frame_Frame[OF this]
  show "\<exists>hdr crc_raw. bs = hdr @ payload @ crc_raw @ rest \<and> length hdr = HDR_AFTER_MAGIC fmt
          \<and> length payload = nat (nsamp * 2) \<and> length crc_raw = 2
          \<and> crc16 (MAGIC_B @ hdr @ payload) = unpack_H crc_raw 0"
    by blast
next
  assume a: "length hdr' = HDR_AFTER_MAGIC fmt \<and> length payload' = nat (unpack_H hdr' 4 * 2)
        \<and> length crc_raw' = 2 \<and> crc16 (MAGIC_B @ hdr' @ payload') \<noteq> unpack_H crc_raw' 0"
  show "fst (decode_frame fmt (hdr' @ payload' @ crc_raw' @ rest')) \<in> {BadHeader, BadCrc}"
  proof (cases "unpack_H hdr' 4 = 0 \<or> unpack_H hdr' 4 > FRAME_SAMPLES fmt")
    case True
    with a show ?thesis by (simp add: decode_frame_bad_header)
  next
    case False
    with a unpack_H_nonneg[of hdr' 4] show ?thesis
      by (subst decode_frame_at) auto
  qed
next
  assume "rpc_parse_frame resp = (Some seq, Some samples)"
  then show "\<exists>buf0. response_buf resp = Some buf0 \<and>
         crc16_ibm (take (length (rpc_strip buf0) - 2) (rpc_strip buf0))
           = unpack_H (rpc_strip buf0) (length (rpc_strip buf0) - 2)"
    using rpc_parse_frame_Some rpc_parse_buf_Some by blast
next
  assume "fst (ecg_parse_frame resp') \<noteq> []"
  then show "\<exists>buf0. response_buf resp' = Some buf0 \<and>
         crc16_ibm (take (length (ecg_strip buf0) - 2) (ecg_strip buf0))
           = unpack_H (ecg_strip buf0) (length (ecg_strip buf0) - 2)"
    using ecg_parse_buf_nonempty by (auto simp: ecg_parse_frame_def split: option.splits)
qed

lemma ex_decode_g6:
  "decode_frame gather_format [6,0,0,0,1,0,0x34,0x12,171,241] = (Frame 6 1 0 [0x34,0x12], [])"
  by (simp add: serial_eval crc_eval unpack_eval)

lemma ex_rpc_p5:
  "rpc_parse_frame (Bytes [1,0,5,0,0,0,0xFF,0xFF,192,41]) = (Some 5, Some [0x3FFF])"
  by (simp add: rpc_eval crc_eval unpack_eval)

lemma ex_ecg_e1:
  "ecg_parse_frame (Bytes [1,10,0,0,0,0xFF,0xFF,3,90,13]) = ([0xFFFF], [13])"
  by (simp add: ecg_eval crc_eval unpack_eval)



theorem accepted_frames_have_matching_crc_witness:
  "decode_frame gather_format [6,0,0,0,1,0,0x34,0x12,171,241] = (Frame 6 1 0 [0x34,0x12], [])
   \<and> (\<exists>hdr crc_raw. [6,0,0,0,1,0,0x34,0x12,171,241] = hdr @ [0x34,0x12] @ crc_raw @ []
          \<and> length hdr = HDR_AFTER_MAGIC gather_format
          \<and> length [0x34,0x12::byte] = nat (1 * 2) \<and> length crc_raw = 2
          \<and> crc16 (MAGIC_B @ hdr @ [0x34,0x12]) = unpack_H crc_raw 0)
   \<and> crc16 (MAGIC_B @ [6,0,0,0,1,0] @ [0x34,0x12]) \<noteq> unpack_H [170,241] 0
   \<and> fst (decode_frame gather_format ([6,0,0,0,1,0] @ [0x34,0x12] @ [170,241] @ []))
         \<in> {BadHeader, BadCrc}
   \<and> rpc_parse_frame (Bytes [1,0,5,0,0,0,0xFF,0xFF,192,41]) = (Some 5, Some [0x3FFF])
   \<and> (\<exists>buf0. response_buf (Bytes [1,0,5,0,0,0,0xFF,0xFF,192,41]) = Some buf0 \<and>
         crc16_ibm (take (length (rpc_strip buf0) - 2) (rpc_strip buf0))
           = unpack_H (rpc_strip buf0) (length (rpc_strip buf0) - 2))
   \<and> fst (ecg_parse_frame (Bytes [1,10,0,0,0,0xFF,0xFF,3,90,13])) \<noteq> []
   \<and> (\<exists>buf0. response_buf (Bytes [1,10,0,0,0,0xFF,0xFF,3,90,13]) = Some buf0 \<and>
         crc16_ibm (take (length (ecg_strip buf0) - 2) (ecg_strip buf0))
           = unpack_H (ecg_strip buf0) (length (ecg_strip buf0) - 2))"
proof -
  have h2: "length [6,0,0,0,1,0::byte] = HDR_AFTER_MAGIC gather_format
      \<and> length [0x34,0x12::byte] = nat (unpack_H [6,0,0,0,1,0] 4 * 2)
      \<and> length [170,241::byte] = 2
      \<and> crc16 (MAGIC_B @ [6,0,0,0,1,0] @ [0x34,0x12]) \<noteq> unpack_H [170,241] 0"
    by (simp add: gather_format_def MAGIC_B_def crc_eval unpack_eval)
  have h4: "fst (ecg_parse_frame (Bytes [1,10,0,0,0,0xFF,0xFF,3,90,13])) \<noteq> []"
    by (simp add: ex_ecg_e1)
  show ?thesis
    using accepted_frames_have_matching_crc[of gather_format "[6,0,0,0,1,0,0x34,0x12,171,241]"
      6 1 0 "[0x34,0x12]" "[]" "[6,0,0,0,1,0]" "[0x34,0x12]" "[170,241]" "[]"
      "Bytes [1,0,5,0,0,0,0xFF,0xFF,192,41]" 5 "[0x3FFF]"
      "Bytes [1,10,0,0,0,0xFF,0xFF,3,90,13]"]
      ex_decode_g6 h2 ex_rpc_p5 h4
    by blast
qed

lemma capture_iter_last_seq:
  "last_seq (snd (capture_iter fmt iters s)) =
     (case fst (decode_frame fmt (ser s)) of Frame seq_no nsamp gap_cyc payload \<Rightarrow> Some seq_no
      | _ \<Rightarrow> last_seq s)"
  by (cases "decode_frame fmt (ser s)"; cases "fst (decode_frame fmt (ser s))")
     (auto simp: capture_iter_def resync_def track_seq_def Let_def split: prod.splits option.splits)

lemma capture_iter_seq_errors:
  "seq_errors (snd (capture_iter fmt iters s)) =
     (case fst (decode_frame fmt (ser s)) of
        Frame seq_no nsamp gap_cyc payload \<Rightarrow> snd (track_seq (last_seq s) (seq_errors s) seq_no)
      | _ \<Rightarrow> seq_errors s)"
  by (cases "decode_frame fmt (ser s)"; cases "fst (decode_frame fmt (ser s))")
     (auto simp: capture_iter_def resync_def Let_def split: prod.splits option.splits)

lemma capture_iter_bad_crc:
  "bad_crc (snd (capture_iter fmt iters s)) =
     (case fst (decode_frame fmt (ser s)) of BadCrc \<Rightarrow> bad_crc s + 1 | _ \<Rightarrow> bad_crc s)"
  by (cases "decode_frame fmt (ser s)"; cases "fst (decode_frame fmt (ser s))")
     (auto simp: capture_iter_def resync_def Let_def split: prod.splits option.splits)

lemma capture_iter_rows:
  "rows (snd (capture_iter fmt iters s)) =
     (case fst (decode_frame fmt (ser s)) of
        Frame seq_no nsamp gap_cyc payload \<Rightarrow>
          rows s @ write_rows fmt (if gap_cyc > 0 \<and> total s > 0 then 1 else 0) (total s) 0
                     (unpack_samples nsamp payload)
      | _ \<Rightarrow> rows s)"
  by (cases "decode_frame fmt (ser s)"; cases "fst (decode_frame fmt (ser s))")
     (auto simp: capture_iter_def resync_def Let_def split: prod.splits option.splits)

lemma capture_iter_total:
  "total (snd (capture_iter fmt iters s)) =
     (case fst (decode_frame fmt (ser s)) of
        Frame seq_no nsamp gap_cyc payload \<Rightarrow> total s + nat nsamp
      | _ \<Rightarrow> total s)"
  by (cases "decode_frame fmt (ser s)"; cases "fst (decode_frame fmt (ser s))")
     (auto simp: capture_iter_def resync_def Let_def unpack_samples_def split: prod.splits option.splits)

lemma length_write_rows: "length (write_rows fmt gap_flag tot i samples) = length samples"
  by (induction samples arbitrary: tot i) (simp_all add: Let_def)

lemma write_rows_raw:
  "map (\<lambda>r. r ! 1) (write_rows fmt gap_flag tot i samples) = map (\<lambda>s. s AND 0xFFF) samples"
  by (induction samples arbitrary: tot i) (simp_all add: Let_def)

lemma rpc_parse_frame_cases:
  "rpc_parse_frame resp = (None, None) \<or> (\<exists>seq samples. rpc_parse_frame resp = (Some seq, Some samples))"
  by (auto simp: rpc_parse_frame_def rpc_parse_buf_def Let_def split: option.splits)

lemma rpc_iter_accept:
  "rpc_parse_frame resp = (Some seq, Some samples) \<Longrightarrow>
     rpc_iter r resp = r\<lparr>rpc_last_seq := Some seq,
        rpc_seq_errors := snd (track_seq (rpc_last_seq r) (rpc_seq_errors r) seq),
        rpc_rows := rpc_rows r @ rpc_write_rows (rpc_total r) samples,
        rpc_total := rpc_total r + length samples\<rparr>"
  by (simp add: rpc_iter_def Let_def track_seq_def)

lemma rpc_iter_reject:
  "rpc_parse_frame resp = (None, None) \<Longrightarrow> rpc_iter r resp = r\<lparr>rpc_empty := rpc_empty r + 1\<rparr>"
  by (simp add: rpc_iter_def)

text \<open>
  C4. For an accepted frame the gap counter is incremented iff a frame was accepted
  before (\<open>last_seq\<close> is set) and the new sequence number differs from
  \<open>(last_seq + 1) mod 2^32\<close>, in the serial loops and in \<^verbatim>\<open>RPC_capture\<close>; the first
  accepted frame reports no gap, nor does 0 after 0xFFFFFFFF.
\<close>

theorem sequence_gap_reported:
  "snd (track_seq prv errs seq_no) =
      (if \<exists>l. prv = Some l \<and> seq_no \<noteq> (l + 1) mod 2 ^ 32 then errs + 1 else errs)
   \<and> snd (track_seq None errs seq_no) = errs
   \<and> snd (track_seq (Some 0xFFFFFFFF) errs 0) = errs
   \<and> (fst (decode_frame fmt (ser s)) = Frame seq_no nsamp gap_cyc payload \<longrightarrow>
        seq_errors (snd (capture_iter fmt iters s)) =
          (if \<exists>l. last_seq s = Some l \<and> seq_no \<noteq> (l + 1) mod 2 ^ 32
           then seq_errors s + 1 else seq_errors s))
   \<and> (rpc_parse_frame resp = (Some seq, Some samples) \<longrightarrow>
        rpc_seq_errors (rpc_iter r resp) =
          (if \<exists>l. rpc_last_seq r = Some l \<and> seq \<noteq> (l + 1) mod 2 ^ 32
           then rpc_seq_errors r + 1 else rpc_seq_errors r))"
proof -
  have tr: "snd (track_seq p e q) = (if \<exists>l. p = Some l \<and> q \<noteq> (l + 1) mod 2 ^ 32 then e + 1 else e)"
    for p e q
    by (cases p) (simp_all add: track_seq_def seq_gap_def mask32)
  show ?thesis
    by (intro conjI impI)
       (simp_all add: tr capture_iter_seq_errors rpc_iter_accept del: One_nat_def)
qed


lemma ex_decode_g8:
  "decode_frame gather_format [8,0,0,0,1,0,0x34,0x12,186,111] = (Frame 8 1 0 [0x34,0x12], [])"
  by (simp add: serial_eval crc_eval unpack_eval)

lemma ex_rpc_p7:
  "rpc_parse_frame (Bytes [1,0,7,0,0,0,0x34,0x12,86,182]) = (Some 7, Some [0x1234])"
  by (simp add: rpc_eval crc_eval unpack_eval)

theorem sequence_gap_reported_witness:
  "fst (decode_frame gather_format
         (ser \<lparr>ser = [8,0,0,0,1,0,0x34,0x12,186,111], total = 0, bad_crc = 0, seq_errors = 0,
               last_seq = Some 6, rows = [], syncs = 1\<rparr>)) = Frame 8 1 0 [0x34,0x12]
   \<and> seq_errors (snd (capture_iter gather_format 4
         \<lparr>ser = [8,0,0,0,1,0,0x34,0x12,186,111], total = 0, bad_crc = 0, seq_errors = 0,
          last_seq = Some 6, rows = [], syncs = 1\<rparr>)) = 1
   \<and> rpc_parse_frame (Bytes [1,0,7,0,0,0,0x34,0x12,86,182]) = (Some 7, Some [0x1234])
   \<and> rpc_seq_errors (rpc_iter \<lparr>rpc_total = 0, rpc_bad = 0, rpc_empty = 0, rpc_last_seq = Some 6,
         rpc_seq_errors = 0, rpc_rows = []\<rparr> (Bytes [1,0,7,0,0,0,0x34,0x12,86,182])) = 0"
proof -
  have h1: "fst (decode_frame gather_format
         (ser \<lparr>ser = [8,0,0,0,1,0,0x34,0x12,186,111], total = 0, bad_crc = 0, seq_errors = 0,
               last_seq = Some 6, rows = [], syncs = 1\<rparr>)) = Frame 8 1 0 [0x34,0x12]"
    by (simp add: ex_decode_g8)
  show ?thesis
    using sequence_gap_reported[where fmt = gather_format and seq_no = 8 and nsamp = 1
        and gap_cyc = 0 and payload = "[0x34,0x12]" and iters = 4
        and s = "\<lparr>ser = [8,0,0,0,1,0,0x34,0x12,186,111], total = 0, bad_crc = 0, seq_errors = 0,
               last_seq = Some 6, rows = [], syncs = 1\<rparr>"
        and resp = "Bytes [1,0,7,0,0,0,0x34,0x12,86,182]" and seq = 7 and samples = "[0x1234]"
        and r = "\<lparr>rpc_total = 0, rpc_bad = 0, rpc_empty = 0, rpc_last_seq = Some 6,
         rpc_seq_errors = 0, rpc_rows = []\<rparr>"]
      h1 ex_rpc_p7
    by simp
qed

lemma write_rows_index:
  "map (\<lambda>r. r ! 0) (write_rows fmt gap_flag tot i samples) = map int [tot..<tot + length samples]"
proof (induction samples arbitrary: tot i)
  case Nil
  then show ?case by simp
next
  case (Cons a samples)
  have "[tot..<tot + length (a # samples)] = tot # [Suc tot..<Suc tot + length samples]"
    by (simp add: upt_conv_Cons del: upt_Suc)
  then show ?case
    using Cons.IH[of "tot + 1" "i + 1"] by (simp add: Let_def del: upt_Suc)
qed

lemma rpc_write_rows_eq:
  "rpc_write_rows tot samples = map (\<lambda>i. [int (tot + i), samples ! i]) [0..<length samples]"
proof (induction samples arbitrary: tot)
  case Nil
  then show ?case by simp
next
  case (Cons a samples)
  have "[0..<length (a # samples)] = 0 # map Suc [0..<length samples]"
    by (simp add: upt_conv_Cons map_Suc_upt del: upt_Suc)
  then show ?case
    by (simp add: Cons.IH o_def del: upt_Suc)
qed

text \<open>
  C5. A validated frame whose sequence number is not the expected one increments the
  gap counter, is not counted as a failure, and all its samples are written, the same
  rows as with any other value of \<open>last_seq\<close>: in the serial loops (rows of index and
  masked sample) and in the loop of \<^verbatim>\<open>RPC_capture\<close> (rows of index and sample).
\<close>

theorem gap_frame_still_delivered:
  "(decode_frame fmt (ser s) = (Frame seq_no nsamp gap_cyc payload, rest)
      \<and> seq_gap (last_seq s) seq_no \<longrightarrow>
       seq_errors (snd (capture_iter fmt iters s)) = seq_errors s + 1
     \<and> bad_crc (snd (capture_iter fmt iters s)) = bad_crc s
     \<and> rows (snd (capture_iter fmt iters s)) =
         rows s @ write_rows fmt (if gap_cyc > 0 \<and> total s > 0 then 1 else 0) (total s) 0
                    (unpack_samples nsamp payload)
     \<and> length (rows (snd (capture_iter fmt iters s))) = length (rows s) + nat nsamp
     \<and> map (\<lambda>r. r ! 0) (drop (length (rows s)) (rows (snd (capture_iter fmt iters s)))) =
         map int [total s..<total s + nat nsamp]
     \<and> map (\<lambda>r. r ! 1) (drop (length (rows s)) (rows (snd (capture_iter fmt iters s)))) =
         map (\<lambda>i. unpack_h payload (2 * i) AND 0xFFF) [0..<nat nsamp]
     \<and> rows (snd (capture_iter fmt iters (s\<lparr>last_seq := l\<rparr>))) =
         rows (snd (capture_iter fmt iters s)))
   \<and> (rpc_parse_frame resp = (Some seq, Some samples) \<and> seq_gap (rpc_last_seq r) seq \<longrightarrow>
       rpc_seq_errors (rpc_iter r resp) = rpc_seq_errors r + 1
     \<and> rpc_bad (rpc_iter r resp) = rpc_bad r
     \<and> rpc_empty (rpc_iter r resp) = rpc_empty r
     \<and> rpc_rows (rpc_iter r resp) =
         rpc_rows r @ map (\<lambda>i. [int (rpc_total r + i), samples ! i]) [0..<length samples]
     \<and> rpc_total (rpc_iter r resp) = rpc_total r + length samples
     \<and> rpc_rows (rpc_iter (r\<lparr>rpc_last_seq := l'\<rparr>) resp) = rpc_rows (rpc_iter r resp))"
proof (intro conjI impI)
  assume a: "decode_frame fmt (ser s) = (Frame seq_no nsamp gap_cyc payload, rest)
      \<and> seq_gap (last_seq s) seq_no"
  then have d: "fst (decode_frame fmt (ser s)) = Frame seq_no nsamp gap_cyc payload"
    and g: "seq_gap (last_seq s) seq_no"
    by simp_all
  show "seq_errors (snd (capture_iter fmt iters s)) = seq_errors s + 1"
    using g by (simp add: capture_iter_seq_errors d track_seq_def)
  show "bad_crc (snd (capture_iter fmt iters s)) = bad_crc s"
    by (simp add: capture_iter_bad_crc d)
  show r: "rows (snd (capture_iter fmt iters s)) =
         rows s @ write_rows fmt (if gap_cyc > 0 \<and> total s > 0 then 1 else 0) (total s) 0
                    (unpack_samples nsamp payload)"
    by (simp add: capture_iter_rows d)
  show "length (rows (snd (capture_iter fmt iters s))) = length (rows s) + nat nsamp"
    by (simp add: r length_write_rows unpack_samples_def)
  show "map (\<lambda>r. r ! 0) (drop (length (rows s)) (rows (snd (capture_iter fmt iters s)))) =
         map int [total s..<total s + nat nsamp]"
    by (simp add: r write_rows_index unpack_samples_def del: upt_Suc)
  show "map (\<lambda>r. r ! 1) (drop (length (rows s)) (rows (snd (capture_iter fmt iters s)))) =
         map (\<lambda>i. unpack_h payload (2 * i) AND 0xFFF) [0..<nat nsamp]"
    by (simp add: r write_rows_raw unpack_samples_def o_def del: One_nat_def)
  show "rows (snd (capture_iter fmt iters (s\<lparr>last_seq := l\<rparr>))) =
         rows (snd (capture_iter fmt iters s))"
    by (simp add: capture_iter_rows d)
next
  assume a: "rpc_parse_frame resp = (Some seq, Some samples) \<and> seq_gap (rpc_last_seq r) seq"
  then have p: "rpc_parse_frame resp = (Some seq, Some samples)"
    and g: "seq_gap (rpc_last_seq r) seq"
    by simp_all
  show "rpc_seq_errors (rpc_iter r resp) = rpc_seq_errors r + 1"
    using g by (simp add: rpc_iter_accept[OF p] track_seq_def)
  show "rpc_bad (rpc_iter r resp) = rpc_bad r"
    by (simp add: rpc_iter_accept[OF p])
  show "rpc_empty (rpc_iter r resp) = rpc_empty r"
    by (simp add: rpc_iter_accept[OF p])
  show "rpc_rows (rpc_iter r resp) =
         rpc_rows r @ map (\<lambda>i. [int (rpc_total r + i), samples ! i]) [0..<length samples]"
    by (simp add: rpc_iter_accept[OF p] rpc_write_rows_eq)
  show "rpc_total (rpc_iter r resp) = rpc_total r + length samples"
    by (simp add: rpc_iter_accept[OF p])
  show "rpc_rows (rpc_iter (r\<lparr>rpc_last_seq := l'\<rparr>) resp) = rpc_rows (rpc_iter r resp)"
    by (simp add: rpc_iter_accept[OF p])
qed

lemma ex_rpc_p2:
  "rpc_parse_frame (Bytes [2,0,9,0,0,0,0x34,0x12,0xFF,0xFF,206,37]) = (Some 9, Some [0x1234, 0x3FFF])"
  by code_simp

theorem gap_frame_still_delivered_witness:
  "seq_gap (Some 6) 8
   \<and> seq_errors (snd (capture_iter gather_format 4
         \<lparr>ser = [8,0,0,0,1,0,0x34,0x12,186,111], total = 3, bad_crc = 0, seq_errors = 0,
          last_seq = Some 6, rows = [[0,1],[1,2],[2,3]], syncs = 1\<rparr>)) = 1
   \<and> bad_crc (snd (capture_iter gather_format 4
         \<lparr>ser = [8,0,0,0,1,0,0x34,0x12,186,111], total = 3, bad_crc = 0, seq_errors = 0,
          last_seq = Some 6, rows = [[0,1],[1,2],[2,3]], syncs = 1\<rparr>)) = 0
   \<and> rows (snd (capture_iter gather_format 4
         \<lparr>ser = [8,0,0,0,1,0,0x34,0x12,186,111], total = 3, bad_crc = 0, seq_errors = 0,
          last_seq = Some 6, rows = [[0,1],[1,2],[2,3]], syncs = 1\<rparr>))
       = [[0,1],[1,2],[2,3],[3,0x234]]
   \<and> seq_gap (Some 3) 9
   \<and> rpc_seq_errors (rpc_iter \<lparr>rpc_total = 1, rpc_bad = 0, rpc_empty = 0, rpc_last_seq = Some 3,
         rpc_seq_errors = 0, rpc_rows = [[0,7]]\<rparr>
         (Bytes [2,0,9,0,0,0,0x34,0x12,0xFF,0xFF,206,37])) = 1
   \<and> rpc_rows (rpc_iter \<lparr>rpc_total = 1, rpc_bad = 0, rpc_empty = 0, rpc_last_seq = Some 3,
         rpc_seq_errors = 0, rpc_rows = [[0,7]]\<rparr>
         (Bytes [2,0,9,0,0,0,0x34,0x12,0xFF,0xFF,206,37])) = [[0,7],[1,0x1234],[2,0x3FFF]]"
proof -
  have g: "seq_gap (last_seq \<lparr>ser = [8,0,0,0,1,0,0x34,0x12,186,111], total = 3, bad_crc = 0,
          seq_errors = 0, last_seq = Some 6, rows = [[0,1],[1,2],[2,3]], syncs = 1\<rparr>) 8"
    by (simp add: seq_gap_def)
  have d: "decode_frame gather_format (ser \<lparr>ser = [8,0,0,0,1,0,0x34,0x12,186,111], total = 3,
          bad_crc = 0, seq_errors = 0, last_seq = Some 6, rows = [[0,1],[1,2],[2,3]],
          syncs = 1\<rparr>) = (Frame 8 1 0 [0x34,0x12], [])"
    by (simp add: ex_decode_g8)
  have g': "seq_gap (rpc_last_seq \<lparr>rpc_total = 1, rpc_bad = 0, rpc_empty = 0,
          rpc_last_seq = Some 3, rpc_seq_errors = 0, rpc_rows = [[0,7]]\<rparr>) 9"
    by (simp add: seq_gap_def)
  have u: "[0..<2] = [0, Suc 0]"
    by (simp add: upt_conv_Cons)
  show ?thesis
    using gap_frame_still_delivered[where fmt = gather_format and iters = 4 and seq_no = 8
        and nsamp = 1 and gap_cyc = 0 and payload = "[0x34,0x12]" and rest = "[]" and l = None
        and s = "\<lparr>ser = [8,0,0,0,1,0,0x34,0x12,186,111], total = 3, bad_crc = 0,
          seq_errors = 0, last_seq = Some 6, rows = [[0,1],[1,2],[2,3]], syncs = 1\<rparr>"
        and resp = "Bytes [2,0,9,0,0,0,0x34,0x12,0xFF,0xFF,206,37]" and seq = 9
        and samples = "[0x1234, 0x3FFF]" and l' = None
        and r = "\<lparr>rpc_total = 1, rpc_bad = 0, rpc_empty = 0, rpc_last_seq = Some 3,
         rpc_seq_errors = 0, rpc_rows = [[0,7]]\<rparr>"]
      d g g' ex_rpc_p2
    by (simp add: seq_gap_def unpack_samples_def gather_format_def unpack_eval u)
qed

lemma rpc_iter_last_seq:
  "rpc_last_seq (rpc_iter r resp) =
     (case rpc_parse_frame resp of (Some seq, Some samples) \<Rightarrow> Some seq | _ \<Rightarrow> rpc_last_seq r)"
  using rpc_parse_frame_cases[of resp]
  by (auto simp: rpc_iter_accept rpc_iter_reject)

lemma rpc_run_last_seq:
  "rpc_last_seq (foldl rpc_iter r resps) =
     (if rpc_accepted resps = [] then rpc_last_seq r else Some (last (rpc_accepted resps)))"
proof (induction resps arbitrary: r)
  case Nil
  then show ?case by (simp add: rpc_accepted_def)
next
  case (Cons resp resps)
  have split: "rpc_accepted (resp # resps) = rpc_accepted [resp] @ rpc_accepted resps"
    by (simp add: rpc_accepted_def)
  show ?case
    using rpc_parse_frame_cases[of resp]
    by (auto simp: Cons.IH split rpc_iter_accept rpc_iter_reject)
       (auto simp: rpc_accepted_def)
qed

text \<open>
  C6. \<open>last_seq\<close> becomes the sequence number of a frame exactly when the frame passes
  decoding and the checksum, gap or no gap; every rejected attempt (malformed header,
  wrong length, checksum mismatch, empty response, timeout) leaves it as it was. Over
  a session of \<^verbatim>\<open>RPC_capture\<close> it is the number of the last accepted response.
\<close>

theorem last_seq_follows_acceptance:
  "last_seq (snd (capture_iter fmt iters s)) =
      (case fst (decode_frame fmt (ser s)) of
         Frame seq_no nsamp gap_cyc payload \<Rightarrow> Some seq_no
       | _ \<Rightarrow> last_seq s)
   \<and> rpc_last_seq (rpc_iter r resp) =
      (case rpc_parse_frame resp of (Some seq, Some samples) \<Rightarrow> Some seq | _ \<Rightarrow> rpc_last_seq r)
   \<and> rpc_last_seq (foldl rpc_iter r resps) =
      (if rpc_accepted resps = [] then rpc_last_seq r else Some (last (rpc_accepted resps)))"
  by (simp only: capture_iter_last_seq rpc_iter_last_seq rpc_run_last_seq simp_thms)

lemma ex_rpc_p5_badcrc:
  "rpc_parse_frame (Bytes [1,0,5,0,0,0,0xFF,0xFF,193,41]) = (None, None)"
  by (simp add: rpc_eval crc_eval unpack_eval)

theorem last_seq_follows_acceptance_witness:
  "last_seq (snd (capture_iter gather_format 4
         \<lparr>ser = [8,0,0,0,1,0,0x34,0x12,186,111], total = 0, bad_crc = 0, seq_errors = 0,
          last_seq = Some 6, rows = [], syncs = 1\<rparr>)) = Some 8
   \<and> last_seq (snd (capture_iter gather_format 4
         \<lparr>ser = [8,0,0,0,0,0], total = 0, bad_crc = 0, seq_errors = 0,
          last_seq = Some 6, rows = [], syncs = 1\<rparr>)) = Some 6
   \<and> rpc_last_seq (rpc_iter \<lparr>rpc_total = 0, rpc_bad = 0, rpc_empty = 0, rpc_last_seq = Some 3,
         rpc_seq_errors = 0, rpc_rows = []\<rparr> (Bytes [1,0,7,0,0,0,0x34,0x12,86,182])) = Some 7
   \<and> rpc_last_seq (rpc_iter \<lparr>rpc_total = 0, rpc_bad = 0, rpc_empty = 0, rpc_last_seq = Some 3,
         rpc_seq_errors = 0, rpc_rows = []\<rparr> (Bytes [1,0,5,0,0,0,0xFF,0xFF,193,41])) = Some 3"
proof -
  have d: "decode_frame gather_format [8,0,0,0,0,0] = (BadHeader, [])"
    by (simp add: serial_eval unpack_eval)
  show ?thesis
    using last_seq_follows_acceptance[of gather_format 4
        "\<lparr>ser = [8,0,0,0,1,0,0x34,0x12,186,111], total = 0, bad_crc = 0, seq_errors = 0,
          last_seq = Some 6, rows = [], syncs = 1\<rparr>"
        "\<lparr>rpc_total = 0, rpc_bad = 0, rpc_empty = 0, rpc_last_seq = Some 3,
         rpc_seq_errors = 0, rpc_rows = []\<rparr>" "Bytes [1,0,7,0,0,0,0x34,0x12,86,182]" "[]"]
      last_seq_follows_acceptance[of gather_format 4
        "\<lparr>ser = [8,0,0,0,0,0], total = 0, bad_crc = 0, seq_errors = 0,
          last_seq = Some 6, rows = [], syncs = 1\<rparr>"
        "\<lparr>rpc_total = 0, rpc_bad = 0, rpc_empty = 0, rpc_last_seq = Some 3,
         rpc_seq_errors = 0, rpc_rows = []\<rparr>" "Bytes [1,0,5,0,0,0,0xFF,0xFF,193,41]" "[]"]
    by (simp add: ex_decode_g8 d ex_rpc_p7 ex_rpc_p5_badcrc)
qed

lemma ecg_samples_fst:
  "fst (ecg_samples buf k off t) = map (\<lambda>i. unpack_H buf (off + 3 * i)) [0..<k]"
proof (induction k arbitrary: off t)
  case 0
  then show ?case by simp
next
  case (Suc k)
  have "[0..<Suc k] = 0 # map Suc [0..<k]"
    by (simp add: upt_conv_Cons map_Suc_upt del: upt_Suc)
  then show ?case
    by (simp add: Let_def Suc.IH o_def add.assoc del: upt_Suc)
qed

lemma ecg_parse_buf_samples:
  assumes "fst (ecg_parse_buf buf0) \<noteq> []"
  shows "fst (ecg_parse_buf buf0) =
           map (\<lambda>i. unpack_H (ecg_strip buf0) (5 + 3 * i)) [0..<nat (uint (ecg_strip buf0 ! 0))]"
  using assms by (auto simp: ecg_parse_buf_def Let_def ecg_samples_fst split: if_splits)

lemma rpc_parse_buf_samples:
  assumes "rpc_parse_buf buf0 = (Some seq, Some samples)"
  shows "samples = map (\<lambda>i. unpack_H (rpc_strip buf0) (6 + i * 2) AND 0x3FFF)
                     [0..<nat (unpack_H (rpc_strip buf0) 0)]"
    and "int (length (rpc_strip buf0)) = 8 + 2 * unpack_H (rpc_strip buf0) 0"
  using assms by (auto simp: rpc_parse_buf_def Let_def split: if_splits)

lemma mask12_range: "0 \<le> (s::int) AND 0xFFF \<and> s AND 0xFFF \<le> 0xFFF"
  by (simp add: AND_upper2)

lemma mask14_range: "0 \<le> (s::int) AND 0x3FFF \<and> s AND 0x3FFF \<le> 0x3FFF"
  by (simp add: AND_upper2)

theorem bit_depth_mask_counterexample:
  "fst (ecg_parse_frame (Bytes [1,10,0,0,0,0xFF,0xFF,3,90,13])) = [0xFFFF]
   \<and> ecg_rows (ecg_run_capture [Bytes [1,10,0,0,0,0xFF,0xFF,3,90,13]]) = [[0, 13, 0xFFFF]]"
  by (simp add: ex_ecg_e1 ecg_run_capture_def ecg_iter_def)

text \<open>
  C7 (amended). The serial formats mask every int16 sample with 0xFFF and
  \<^verbatim>\<open>RPC_capture\<close> masks every uint16 sample with 0x3FFF before the rows are written, so
  that a container with all bits set gives 0xFFF, respectively 0x3FFF; the
  interleaved-timestamp format of \<^verbatim>\<open>RPC_sample_csv\<close> delivers the 16-bit container
  value as it is.
\<close>

theorem masking_per_format:
  "map (\<lambda>r. r ! 1) (write_rows fmt gap_flag tot i samples) = map (\<lambda>s. s AND 0xFFF) samples
   \<and> 0 \<le> (s::int) AND 0xFFF \<and> s AND 0xFFF \<le> 0xFFF
   \<and> (let s = unpack_h [0xFF, 0xFF] 0 in s AND 0xFFF) = 0xFFF
   \<and> (rpc_parse_buf buf0 = (Some seq, Some samples') \<longrightarrow>
        samples' = map (\<lambda>i. unpack_H (rpc_strip buf0) (6 + i * 2) AND 0x3FFF)
                      [0..<nat (unpack_H (rpc_strip buf0) 0)])
   \<and> 0 \<le> (v::int) AND 0x3FFF \<and> v AND 0x3FFF \<le> 0x3FFF
   \<and> unpack_H [0xFF, 0xFF] 0 AND 0x3FFF = 0x3FFF
   \<and> (fst (ecg_parse_buf buf1) \<noteq> [] \<longrightarrow>
        fst (ecg_parse_buf buf1) =
          map (\<lambda>i. unpack_H (ecg_strip buf1) (5 + 3 * i)) [0..<nat (uint (ecg_strip buf1 ! 0))])"
proof -
  have a: "(let s = unpack_h [0xFF, 0xFF] 0 in s AND 0xFFF) = 0xFFF"
    by (simp add: unpack_eval)
  have b: "unpack_H [0xFF, 0xFF] 0 AND 0x3FFF = 0x3FFF"
    by (simp add: unpack_eval)
  show ?thesis
    using write_rows_raw[of fmt gap_flag tot i samples] mask12_range[of s] mask14_range[of v]
      a b rpc_parse_buf_samples(1)[of buf0 seq samples'] ecg_parse_buf_samples[of buf1]
    by blast
qed

lemma ex_rpc_buf_p5:
  "rpc_parse_buf [1,0,5,0,0,0,0xFF,0xFF,192,41] = (Some 5, Some [0x3FFF])"
  by (simp add: rpc_eval crc_eval unpack_eval)

lemma ex_ecg_buf_e1:
  "ecg_parse_buf [1,10,0,0,0,0xFF,0xFF,3,90,13] = ([0xFFFF], [13])"
  by (simp add: ecg_eval crc_eval unpack_eval)

theorem masking_per_format_witness:
  "rpc_parse_buf [1,0,5,0,0,0,0xFF,0xFF,192,41] = (Some 5, Some [0x3FFF])
   \<and> [0x3FFF] = map (\<lambda>i. unpack_H (rpc_strip [1,0,5,0,0,0,0xFF,0xFF,192,41]) (6 + i * 2) AND 0x3FFF)
                      [0..<nat (unpack_H (rpc_strip [1,0,5,0,0,0,0xFF,0xFF,192,41]) 0)]
   \<and> fst (ecg_parse_buf [1,10,0,0,0,0xFF,0xFF,3,90,13]) \<noteq> []
   \<and> fst (ecg_parse_buf [1,10,0,0,0,0xFF,0xFF,3,90,13]) =
          map (\<lambda>i. unpack_H (ecg_strip [1,10,0,0,0,0xFF,0xFF,3,90,13]) (5 + 3 * i))
            [0..<nat (uint (ecg_strip [1,10,0,0,0,0xFF,0xFF,3,90,13] ! 0))]"
proof -
  have h: "fst (ecg_parse_buf [1,10,0,0,0,0xFF,0xFF,3,90,13]) \<noteq> []"
    by (simp add: ex_ecg_buf_e1)
  show ?thesis
    using masking_per_format[where ?buf0.0 = "[1,0,5,0,0,0,0xFF,0xFF,192,41]" and seq = 5
        and samples' = "[0x3FFF]" and ?buf1.0 = "[1,10,0,0,0,0xFF,0xFF,3,90,13]"]
      ex_rpc_buf_p5 h
    by blast
qed

lemma capture_iter_bad_header:
  assumes "length hdr = HDR_AFTER_MAGIC fmt"
    and "unpack_H hdr 4 = 0 \<or> unpack_H hdr 4 > FRAME_SAMPLES fmt"
    and "ser s = hdr @ rest"
  shows "capture_iter fmt iters s = resync iters (s\<lparr>ser := rest\<rparr>)"
  using decode_frame_bad_header[OF assms(1,2), of rest] assms(3)
  by (simp add: capture_iter_def)

lemma resync_fields:
  "rows (snd (resync iters s)) = rows s" "total (snd (resync iters s)) = total s"
  "last_seq (snd (resync iters s)) = last_seq s" "bad_crc (snd (resync iters s)) = bad_crc s"
  "seq_errors (snd (resync iters s)) = seq_errors s" "syncs (snd (resync iters s)) = syncs s + 1"
  by (simp_all add: resync_def split: prod.splits)

lemma ecg_count_zero:
  "ecg_strip buf1 \<noteq> [] \<Longrightarrow> uint (ecg_strip buf1 ! 0) = 0 \<Longrightarrow> ecg_parse_buf buf1 = ([], [])"
  by (simp add: ecg_parse_buf_def Let_def)

lemma byte_le_MAX_SAMPLES: "uint (b::byte) \<le> MAX_SAMPLES"
  using uint_bounded[of b] by (simp add: MAX_SAMPLES_def)

lemma rpc_parse_buf_length_samples:
  assumes "rpc_parse_buf buf0 = (Some seq, Some samples)"
  shows "int (length samples) = unpack_H (rpc_strip buf0) 0"
  using rpc_parse_buf_samples(1)[OF assms] unpack_H_nonneg[of "rpc_strip buf0" 0] by simp

lemma rpc_parse_buf_eq:
  "rpc_parse_buf buf0 =
       (if int (length (rpc_strip buf0)) = 8 + 2 * unpack_H (rpc_strip buf0) 0
           \<and> crc16_ibm (take (length (rpc_strip buf0) - 2) (rpc_strip buf0))
               = unpack_H (rpc_strip buf0) (length (rpc_strip buf0) - 2)
        then (Some (unpack_I (rpc_strip buf0) 2),
              Some (map (\<lambda>i. unpack_H (rpc_strip buf0) (6 + i * 2) AND 0x3FFF)
                      [0..<nat (unpack_H (rpc_strip buf0) 0)]))
        else (None, None))"
  using unpack_H_nonneg[of "rpc_strip buf0" 0]
  by (auto simp: rpc_parse_buf_def Let_def)

theorem count_bound_counterexample:
  "rpc_parse_frame (Bytes [0,0,5,0,0,0,0,204]) = (Some 5, Some [])
   \<and> rpc_run_capture [Bytes [0,0,5,0,0,0,0,204]] =
       \<lparr>rpc_total = 0, rpc_bad = 0, rpc_empty = 0, rpc_last_seq = Some 5, rpc_seq_errors = 0,
        rpc_rows = []\<rparr>"
proof -
  have p: "rpc_parse_frame (Bytes [0,0,5,0,0,0,0,204]) = (Some 5, Some [])"
    by (simp add: rpc_eval crc_eval unpack_eval)
  show ?thesis
    by (simp add: p rpc_run_capture_def rpc_iter_accept track_seq_def seq_gap_def)
qed

text \<open>
  C2 (amended). In the two serial formats a header whose sample count is 0 or above
  \<^verbatim>\<open>FRAME_SAMPLES\<close> fails at once: the decoder stops right behind the header, no payload
  is read, nothing is written, and the loop resyncs from the next byte. In the
  interleaved-timestamp blob format a count of 0 is rejected (its one-byte count cannot
  exceed \<^verbatim>\<open>MAX_SAMPLES\<close>). \<^verbatim>\<open>RPC_capture\<close> has no bound on the count: its buffer (the blob
  without a leading 0x21) is accepted exactly when its length is 8 + 2 * count and its
  checksum matches, whatever the count, and then gives count samples.
\<close>

theorem count_bounds_per_format:
  "(length hdr = HDR_AFTER_MAGIC fmt
      \<and> (unpack_H hdr 4 = 0 \<or> unpack_H hdr 4 > FRAME_SAMPLES fmt)
      \<and> ser s = hdr @ rest \<longrightarrow>
        decode_frame fmt (ser s) = (BadHeader, rest)
      \<and> capture_iter fmt iters s = resync iters (s\<lparr>ser := rest\<rparr>)
      \<and> rows (snd (capture_iter fmt iters s)) = rows s
      \<and> total (snd (capture_iter fmt iters s)) = total s
      \<and> last_seq (snd (capture_iter fmt iters s)) = last_seq s)
   \<and> (ecg_strip buf1 \<noteq> [] \<and> uint (ecg_strip buf1 ! 0) = 0 \<longrightarrow> ecg_parse_buf buf1 = ([], []))
   \<and> uint (ecg_strip buf1 ! 0) \<le> MAX_SAMPLES
   \<and> (rpc_parse_buf buf0 = (Some seq, Some samples) \<longrightarrow>
        int (length (rpc_strip buf0)) = 8 + 2 * unpack_H (rpc_strip buf0) 0
      \<and> int (length samples) = unpack_H (rpc_strip buf0) 0)
   \<and> rpc_parse_buf buf0 =
       (if int (length (rpc_strip buf0)) = 8 + 2 * unpack_H (rpc_strip buf0) 0
           \<and> crc16_ibm (take (length (rpc_strip buf0) - 2) (rpc_strip buf0))
               = unpack_H (rpc_strip buf0) (length (rpc_strip buf0) - 2)
        then (Some (unpack_I (rpc_strip buf0) 2),
              Some (map (\<lambda>i. unpack_H (rpc_strip buf0) (6 + i * 2) AND 0x3FFF)
                      [0..<nat (unpack_H (rpc_strip buf0) 0)]))
        else (None, None))"
proof (intro conjI impI)
  assume a: "length hdr = HDR_AFTER_MAGIC fmt
      \<and> (unpack_H hdr 4 = 0 \<or> unpack_H hdr 4 > FRAME_SAMPLES fmt) \<and> ser s = hdr @ rest"
  then have l: "length hdr = HDR_AFTER_MAGIC fmt"
    and b: "unpack_H hdr 4 = 0 \<or> unpack_H hdr 4 > FRAME_SAMPLES fmt" and c: "ser s = hdr @ rest"
    by blast+
  show "decode_frame fmt (ser s) = (BadHeader, rest)"
    using decode_frame_bad_header[OF l b, of rest] c by simp
  have i: "capture_iter fmt iters s = resync iters (s\<lparr>ser := rest\<rparr>)"
    by (rule capture_iter_bad_header[OF l b c])
  show "capture_iter fmt iters s = resync iters (s\<lparr>ser := rest\<rparr>)" by (rule i)
  show "rows (snd (capture_iter fmt iters s)) = rows s" by (simp add: i resync_fields)
  show "total (snd (capture_iter fmt iters s)) = total s" by (simp add: i resync_fields)
  show "last_seq (snd (capture_iter fmt iters s)) = last_seq s" by (simp add: i resync_fields)
next
  assume "ecg_strip buf1 \<noteq> [] \<and> uint (ecg_strip buf1 ! 0) = 0"
  then show "ecg_parse_buf buf1 = ([], [])" by (simp add: ecg_count_zero)
next
  show "uint (ecg_strip buf1 ! 0) \<le> MAX_SAMPLES" by (rule byte_le_MAX_SAMPLES)
next
  assume "rpc_parse_buf buf0 = (Some seq, Some samples)"
  then show "int (length (rpc_strip buf0)) = 8 + 2 * unpack_H (rpc_strip buf0) 0"
    by (rule rpc_parse_buf_samples(2))
next
  assume "rpc_parse_buf buf0 = (Some seq, Some samples)"
  then show "int (length samples) = unpack_H (rpc_strip buf0) 0"
    by (rule rpc_parse_buf_length_samples)
next
  show "rpc_parse_buf buf0 =
       (if int (length (rpc_strip buf0)) = 8 + 2 * unpack_H (rpc_strip buf0) 0
           \<and> crc16_ibm (take (length (rpc_strip buf0) - 2) (rpc_strip buf0))
               = unpack_H (rpc_strip buf0) (length (rpc_strip buf0) - 2)
        then (Some (unpack_I (rpc_strip buf0) 2),
              Some (map (\<lambda>i. unpack_H (rpc_strip buf0) (6 + i * 2) AND 0x3FFF)
                      [0..<nat (unpack_H (rpc_strip buf0) 0)]))
        else (None, None))"
    by (rule rpc_parse_buf_eq)
qed

theorem count_bounds_per_format_witness:
  "decode_frame gather_format [5,0,0,0,0,0,0x34,0x12] = (BadHeader, [0x34,0x12])
   \<and> decode_frame gather_format [5,0,0,0,1,2,0x34,0x12] = (BadHeader, [0x34,0x12])
   \<and> ecg_parse_buf [0,10,0,0,0,0,0] = ([], [])
   \<and> rpc_parse_buf [1,0,5,0,0,0,0xFF,0xFF,192,41] = (Some 5, Some [0x3FFF])
   \<and> int (length (rpc_strip [1,0,5,0,0,0,0xFF,0xFF,192,41])) =
        8 + 2 * unpack_H (rpc_strip [1,0,5,0,0,0,0xFF,0xFF,192,41]) 0"
proof -
  have h1: "length [5,0,0,0,0,0::byte] = HDR_AFTER_MAGIC gather_format
      \<and> (unpack_H [5,0,0,0,0,0] 4 = 0 \<or> unpack_H [5,0,0,0,0,0] 4 > FRAME_SAMPLES gather_format)
      \<and> ser \<lparr>ser = [5,0,0,0,0,0,0x34,0x12], total = 0, bad_crc = 0, seq_errors = 0,
              last_seq = None, rows = [], syncs = 1\<rparr> = [5,0,0,0,0,0] @ [0x34,0x12]"
    by (simp add: gather_format_def unpack_eval)
  have h2: "length [5,0,0,0,1,2::byte] = HDR_AFTER_MAGIC gather_format
      \<and> (unpack_H [5,0,0,0,1,2] 4 = 0 \<or> unpack_H [5,0,0,0,1,2] 4 > FRAME_SAMPLES gather_format)
      \<and> ser \<lparr>ser = [5,0,0,0,1,2,0x34,0x12], total = 0, bad_crc = 0, seq_errors = 0,
              last_seq = None, rows = [], syncs = 1\<rparr> = [5,0,0,0,1,2] @ [0x34,0x12]"
    by (simp add: gather_format_def unpack_eval)
  have h3: "ecg_strip [0,10,0,0,0,0,0] \<noteq> [] \<and> uint (ecg_strip [0,10,0,0,0,0,0::byte] ! 0) = 0"
    by (simp add: ecg_strip_def)
  have e1: "ser \<lparr>ser = [5,0,0,0,0,0,0x34,0x12::byte], total = 0, bad_crc = 0, seq_errors = 0,
              last_seq = None, rows = [], syncs = 1\<rparr> = [5,0,0,0,0,0,0x34,0x12]"
    and e2: "ser \<lparr>ser = [5,0,0,0,1,2,0x34,0x12::byte], total = 0, bad_crc = 0, seq_errors = 0,
              last_seq = None, rows = [], syncs = 1\<rparr> = [5,0,0,0,1,2,0x34,0x12]"
    by simp_all
  show ?thesis
    using count_bounds_per_format[where fmt = gather_format and hdr = "[5,0,0,0,0,0]"
        and rest = "[0x34,0x12]" and ?buf1.0 = "[0,10,0,0,0,0,0]"
        and ?buf0.0 = "[1,0,5,0,0,0,0xFF,0xFF,192,41]" and seq = 5 and samples = "[0x3FFF]"
        and s = "\<lparr>ser = [5,0,0,0,0,0,0x34,0x12], total = 0, bad_crc = 0, seq_errors = 0,
              last_seq = None, rows = [], syncs = 1\<rparr>"]
      count_bounds_per_format[where fmt = gather_format and hdr = "[5,0,0,0,1,2]"
        and rest = "[0x34,0x12]"
        and s = "\<lparr>ser = [5,0,0,0,1,2,0x34,0x12], total = 0, bad_crc = 0, seq_errors = 0,
              last_seq = None, rows = [], syncs = 1\<rparr>"]
      h1 h2 h3 ex_rpc_buf_p5
    unfolding e1 e2 by blast
qed

lemma ecg_run_bad:
  "ecg_bad (foldl ecg_iter e resps) =
     ecg_bad e + length (filter (\<lambda>resp. fst (ecg_parse_frame resp) = []) resps)"
proof (induction resps arbitrary: e)
  case Nil
  then show ?case by simp
next
  case (Cons resp resps)
  have "ecg_bad (ecg_iter e resp) =
          ecg_bad e + (if fst (ecg_parse_frame resp) = [] then 1 else 0)"
    by (simp add: ecg_iter_def split: prod.splits)
  then show ?case by (simp add: Cons.IH)
qed

lemma rpc_run_rejected:
  "rpc_bad (foldl rpc_iter r resps) + rpc_empty (foldl rpc_iter r resps) =
     rpc_bad r + rpc_empty r + length (filter (\<lambda>resp. rpc_parse_frame resp = (None, None)) resps)"
proof (induction resps arbitrary: r)
  case Nil
  then show ?case by simp
next
  case (Cons resp resps)
  have "rpc_bad (rpc_iter r resp) + rpc_empty (rpc_iter r resp) =
          rpc_bad r + rpc_empty r + (if rpc_parse_frame resp = (None, None) then 1 else 0)"
    using rpc_parse_frame_cases[of resp] by (auto simp: rpc_iter_accept rpc_iter_reject)
  then show ?case by (simp add: Cons.IH)
qed

lemma rpc_bad_unchanged: "rpc_bad (foldl rpc_iter r resps) = rpc_bad r"
proof (induction resps arbitrary: r)
  case Nil
  then show ?case by simp
next
  case (Cons resp resps)
  have "rpc_bad (rpc_iter r resp) = rpc_bad r"
    using rpc_parse_frame_cases[of resp] by (auto simp: rpc_iter_accept rpc_iter_reject)
  then show ?case by (simp add: Cons.IH)
qed

lemma bad_crc_counts_checksum_failures:
  "bad_crc (snd (capture_iter fmt iters s)) =
      (case fst (decode_frame fmt (ser s)) of BadCrc \<Rightarrow> bad_crc s + 1 | _ \<Rightarrow> bad_crc s)"
  by (rule capture_iter_bad_crc)

text \<open>
  C8. The loop of \<^verbatim>\<open>RPC_capture\<close> has a counter \<^verbatim>\<open>bad\<close> for frames that fail validation
  and a counter \<^verbatim>\<open>empty\<close> for empty responses, and prints both in the summary. But
  \<^verbatim>\<open>parse_frame\<close> returns \<^verbatim>\<open>(None, None)\<close> for every failure, so that the test
  \<^verbatim>\<open>samples is None\<close> comes first and \<^verbatim>\<open>bad\<close> is never incremented: a one-sample frame
  of the right length whose checksum is wrong is counted as an empty response, and
  \<^verbatim>\<open>bad\<close> stays what it was over any session.
\<close>

theorem rpc_bad_frame_counted_as_empty:
  "response_buf (Bytes [1,0,5,0,0,0,0xFF,0xFF,193,41]) = Some [1,0,5,0,0,0,0xFF,0xFF,193,41]
   \<and> int (length [1,0,5,0,0,0,0xFF,0xFF,193,41::byte]) =
        8 + 2 * unpack_H [1,0,5,0,0,0,0xFF,0xFF,193,41] 0
   \<and> crc16_ibm [1,0,5,0,0,0,0xFF,0xFF] \<noteq> unpack_H [193,41] 0
   \<and> rpc_parse_frame (Bytes [1,0,5,0,0,0,0xFF,0xFF,193,41]) = (None, None)
   \<and> rpc_run_capture [Bytes [1,0,5,0,0,0,0xFF,0xFF,193,41]] =
       \<lparr>rpc_total = 0, rpc_bad = 0, rpc_empty = 1, rpc_last_seq = None, rpc_seq_errors = 0,
        rpc_rows = []\<rparr>
   \<and> rpc_bad (foldl rpc_iter r resps) = rpc_bad r"
proof -
  have "response_buf (Bytes [1,0,5,0,0,0,0xFF,0xFF,193,41]) = Some [1,0,5,0,0,0,0xFF,0xFF,193,41]"
    by (simp add: response_buf_def hex_chars_def)
  moreover have "int (length [1,0,5,0,0,0,0xFF,0xFF,193,41::byte]) =
        8 + 2 * unpack_H [1,0,5,0,0,0,0xFF,0xFF,193,41] 0"
    by (simp add: unpack_eval)
  moreover have "crc16_ibm [1,0,5,0,0,0,0xFF,0xFF] \<noteq> unpack_H [193,41] 0"
    by (simp add: crc_eval unpack_eval)
  moreover have "rpc_run_capture [Bytes [1,0,5,0,0,0,0xFF,0xFF,193,41]] =
       \<lparr>rpc_total = 0, rpc_bad = 0, rpc_empty = 1, rpc_last_seq = None, rpc_seq_errors = 0,
        rpc_rows = []\<rparr>"
    by (simp add: rpc_run_capture_def rpc_iter_reject[OF ex_rpc_p5_badcrc])
  ultimately show ?thesis
    using ex_rpc_p5_badcrc rpc_bad_unchanged[of r resps] by blast
qed

lemma sync_loop_empty: "sync_loop k prev [] = (False, [])"
  by (induction k) simp_all

lemma sync_magic: "sync (Suc (Suc k)) (MAGIC_B @ rest) = (True, rest)"
  by (simp add: sync_def MAGIC_B_def)

lemma decode_frame_short:
  assumes "length hdr = HDR_AFTER_MAGIC fmt" "0 < unpack_H hdr 4"
    "unpack_H hdr 4 \<le> FRAME_SAMPLES fmt" "length rest < nat (unpack_H hdr 4 * 2) + 2"
  shows "decode_frame fmt (hdr @ rest) = (TimedOut, [])"
  using assms by (auto simp add: decode_frame_def read_exact_eq Let_def)

lemma capture_loop_stall:
  assumes "length hdr = HDR_AFTER_MAGIC fmt" "0 < unpack_H hdr 4"
    "unpack_H hdr 4 \<le> FRAME_SAMPLES fmt" "length rest < nat (unpack_H hdr 4 * 2) + 2"
    "ser s = hdr @ rest"
  shows "capture_iter fmt iters s = (Raise, s\<lparr>ser := []\<rparr>)"
    and "capture_loop fmt iters (Suc n) s = (SerialTimeout, s\<lparr>ser := []\<rparr>)"
proof -
  show i: "capture_iter fmt iters s = (Raise, s\<lparr>ser := []\<rparr>)"
    using decode_frame_short[OF assms(1-4)] assms(5) by (simp add: capture_iter_def)
  show "capture_loop fmt iters (Suc n) s = (SerialTimeout, s\<lparr>ser := []\<rparr>)"
    by (simp add: i)
qed

lemma run_capture_stall:
  assumes "length hdr = HDR_AFTER_MAGIC fmt" "0 < unpack_H hdr 4"
    "unpack_H hdr 4 \<le> FRAME_SAMPLES fmt" "length rest < nat (unpack_H hdr 4 * 2) + 2"
  shows "run_capture fmt (Suc (Suc k)) iters (Suc n) (MAGIC_B @ hdr @ rest) =
           Some (SerialTimeout, \<lparr>ser = [], total = 0, bad_crc = 0, seq_errors = 0,
                                 last_seq = None, rows = [], syncs = 1\<rparr>)"
proof -
  let ?s = "\<lparr>ser = hdr @ rest, total = 0, bad_crc = 0, seq_errors = 0,
             last_seq = None, rows = [], syncs = 1\<rparr>"
  have "capture_loop fmt iters (Suc n) ?s = (SerialTimeout, ?s\<lparr>ser := []\<rparr>)"
    by (rule capture_loop_stall(2)[OF assms]) simp
  then show ?thesis
    by (simp add: run_capture_def sync_magic del: capture_loop.simps)
qed

lemma capture_loop_bad_header_stall:
  assumes "length hdr = HDR_AFTER_MAGIC fmt"
    and "unpack_H hdr 4 = 0 \<or> unpack_H hdr 4 > FRAME_SAMPLES fmt"
    and "ser s = hdr"
  shows "capture_loop fmt iters (Suc n) s = (SyncLost, s\<lparr>ser := [], syncs := syncs s + 1\<rparr>)"
proof -
  have "capture_iter fmt iters s = resync iters (s\<lparr>ser := []\<rparr>)"
    using capture_iter_bad_header[OF assms(1,2), of s "[]"] assms(3) by simp
  then show ?thesis
    by (simp add: resync_def sync_def sync_loop_empty)
qed

theorem stall_after_header_counterexample:
  "run_capture gather_format 10 10 10 [0x5A,0xA5, 5,0,0,0, 1,0] =
     Some (SerialTimeout, \<lparr>ser = [], total = 0, bad_crc = 0, seq_errors = 0,
                           last_seq = None, rows = [], syncs = 1\<rparr>)"
proof -
  have "length [5,0,0,0,1,0::byte] = HDR_AFTER_MAGIC gather_format"
    "0 < unpack_H [5,0,0,0,1,0] 4" "unpack_H [5,0,0,0,1,0] 4 \<le> FRAME_SAMPLES gather_format"
    "length ([]::byte list) < nat (unpack_H [5,0,0,0,1,0] 4 * 2) + 2"
    by (simp_all add: gather_format_def unpack_eval)
  from run_capture_stall[OF this, of 8 10 9] show ?thesis
    by (simp add: MAGIC_B_def)
qed

text \<open>
  C3 (amended). When the source delivers the marker and a header and then stalls, in
  the middle of the frame that the header announces, \<^verbatim>\<open>read_exact\<close> raises
  \<^verbatim>\<open>TimeoutError\<close>; the exception leaves the capture loop and ends the session, with
  no resync and with the counters and rows as they were. (With a header whose sample
  count is out of range the resync is attempted, finds nothing, and the session ends
  as well.)
\<close>

theorem stall_mid_frame_ends_session:
  "(length hdr = HDR_AFTER_MAGIC fmt \<and> 0 < unpack_H hdr 4 \<and> unpack_H hdr 4 \<le> FRAME_SAMPLES fmt
      \<and> length rest < nat (unpack_H hdr 4 * 2) + 2 \<longrightarrow>
        run_capture fmt (Suc (Suc k)) iters (Suc n) (MAGIC_B @ hdr @ rest) =
          Some (SerialTimeout, \<lparr>ser = [], total = 0, bad_crc = 0, seq_errors = 0,
                                last_seq = None, rows = [], syncs = 1\<rparr>))
   \<and> (length hdr = HDR_AFTER_MAGIC fmt \<and> 0 < unpack_H hdr 4 \<and> unpack_H hdr 4 \<le> FRAME_SAMPLES fmt
      \<and> length rest < nat (unpack_H hdr 4 * 2) + 2 \<and> ser s = hdr @ rest \<longrightarrow>
        capture_loop fmt iters (Suc n) s = (SerialTimeout, s\<lparr>ser := []\<rparr>))
   \<and> (length hdr = HDR_AFTER_MAGIC fmt
      \<and> (unpack_H hdr 4 = 0 \<or> unpack_H hdr 4 > FRAME_SAMPLES fmt) \<and> ser s = hdr \<longrightarrow>
        capture_loop fmt iters (Suc n) s = (SyncLost, s\<lparr>ser := [], syncs := syncs s + 1\<rparr>))"
  using run_capture_stall[of hdr fmt rest k iters n] capture_loop_stall(2)[of hdr fmt rest s iters n]
    capture_loop_bad_header_stall[of hdr fmt s iters n]
  by blast

theorem stall_mid_frame_ends_session_witness:
  "run_capture reducedclipping_format (Suc (Suc 3)) 5 (Suc 7)
       (MAGIC_B @ [5,0,0,0,1,0,7,0,0,0] @ [0xFF]) =
          Some (SerialTimeout, \<lparr>ser = [], total = 0, bad_crc = 0, seq_errors = 0,
                                last_seq = None, rows = [], syncs = 1\<rparr>)
   \<and> capture_loop reducedclipping_format 5 (Suc 7)
        \<lparr>ser = [5,0,0,0,1,0,7,0,0,0,0xFF], total = 4, bad_crc = 0, seq_errors = 0,
         last_seq = Some 4, rows = [[0,1,0],[1,2,0],[2,3,0],[3,4,0]], syncs = 1\<rparr> =
       (SerialTimeout, \<lparr>ser = [], total = 4, bad_crc = 0, seq_errors = 0,
         last_seq = Some 4, rows = [[0,1,0],[1,2,0],[2,3,0],[3,4,0]], syncs = 1\<rparr>)
   \<and> capture_loop reducedclipping_format 5 (Suc 7)
        \<lparr>ser = [5,0,0,0,0,0,7,0,0,0], total = 4, bad_crc = 0, seq_errors = 0,
         last_seq = Some 4, rows = [[0,1,0],[1,2,0],[2,3,0],[3,4,0]], syncs = 1\<rparr> =
       (SyncLost, \<lparr>ser = [], total = 4, bad_crc = 0, seq_errors = 0,
         last_seq = Some 4, rows = [[0,1,0],[1,2,0],[2,3,0],[3,4,0]], syncs = 2\<rparr>)"
proof -
  have h: "length [5,0,0,0,1,0,7,0,0,0::byte] = HDR_AFTER_MAGIC reducedclipping_format
      \<and> 0 < unpack_H [5,0,0,0,1,0,7,0,0,0] 4
      \<and> unpack_H [5,0,0,0,1,0,7,0,0,0] 4 \<le> FRAME_SAMPLES reducedclipping_format
      \<and> length [0xFF::byte] < nat (unpack_H [5,0,0,0,1,0,7,0,0,0] 4 * 2) + 2"
    by (simp add: reducedclipping_format_def unpack_eval)
  have h0: "length [5,0,0,0,0,0,7,0,0,0::byte] = HDR_AFTER_MAGIC reducedclipping_format
      \<and> (unpack_H [5,0,0,0,0,0,7,0,0,0] 4 = 0
          \<or> unpack_H [5,0,0,0,0,0,7,0,0,0] 4 > FRAME_SAMPLES reducedclipping_format)"
    by (simp add: reducedclipping_format_def unpack_eval)
  show ?thesis
    using stall_mid_frame_ends_session[where fmt = reducedclipping_format
        and hdr = "[5,0,0,0,1,0,7,0,0,0]" and rest = "[0xFF]" and k = 3 and iters = 5 and n = 7
        and s = "\<lparr>ser = [5,0,0,0,1,0,7,0,0,0,0xFF], total = 4, bad_crc = 0, seq_errors = 0,
         last_seq = Some 4, rows = [[0,1,0],[1,2,0],[2,3,0],[3,4,0]], syncs = 1\<rparr>"]
      stall_mid_frame_ends_session[where fmt = reducedclipping_format
        and hdr = "[5,0,0,0,0,0,7,0,0,0]" and rest = "[]" and k = 3 and iters = 5 and n = 7
        and s = "\<lparr>ser = [5,0,0,0,0,0,7,0,0,0], total = 4, bad_crc = 0, seq_errors = 0,
         last_seq = Some 4, rows = [[0,1,0],[1,2,0],[2,3,0],[3,4,0]], syncs = 1\<rparr>"]
      h h0
    by (simp del: capture_loop.simps)
qed

lemma sync_loop_skips:
  "\<not> contains_magic (p # g) \<Longrightarrow> length g + 2 \<le> k \<Longrightarrow>
     sync_loop k (Some p) (g @ 0x5A # 0xA5 # rest) = (True, rest)"
proof (induction g arbitrary: p k)
  case Nil
  then have "k = Suc (Suc (k - 2))"
    by simp
  then obtain k' where "k = Suc (Suc k')" ..
  then show ?case by simp
next
  case (Cons a g)
  then obtain k' where k: "k = Suc k'" and k': "length g + 2 \<le> k'"
    by (cases k) auto
  from Cons.prems(1) have "\<not> (p = 0x5A \<and> a = 0xA5)" and "\<not> contains_magic (a # g)"
    by auto
  then show ?case
    using Cons.IH[of a k'] k k' by auto
qed

lemma sync_skips_garbage:
  assumes "\<not> contains_magic g" "length g + 2 \<le> k"
  shows "sync k (g @ MAGIC_B @ rest) = (True, rest)"
proof (cases g)
  case Nil
  from assms(2) have "k = Suc (Suc (k - 2))"
    by simp
  then obtain k' where "k = Suc (Suc k')" ..
  with Nil show ?thesis by (simp add: sync_def MAGIC_B_def)
next
  case (Cons a g')
  from assms(2) Cons obtain k' where k: "k = Suc k'" and k': "length g' + 2 \<le> k'"
    by (cases k) auto
  show ?thesis
    using sync_loop_skips[of a g' k' rest] assms(1) k k' Cons
    by (simp add: sync_def MAGIC_B_def)
qed

lemma valid_frame_split:
  assumes "valid_frame fmt f"
  shows "f = frame_hdr fmt f @ frame_payload fmt f @ frame_crc fmt f"
    and "length (frame_hdr fmt f) = HDR_AFTER_MAGIC fmt"
    and "length (frame_payload fmt f) = nat (frame_nsamp fmt f * 2)"
    and "length (frame_crc fmt f) = 2"
proof -
  from assms have len: "length f = HDR_AFTER_MAGIC fmt + nat (frame_nsamp fmt f * 2) + 2"
    by (simp add: valid_frame_def)
  have "frame_crc fmt f = drop (nat (frame_nsamp fmt f * 2)) (drop (HDR_AFTER_MAGIC fmt) f)"
    by (simp add: frame_crc_def add.commute)
  then show "f = frame_hdr fmt f @ frame_payload fmt f @ frame_crc fmt f"
    unfolding frame_hdr_def frame_payload_def
    by (simp only: append_take_drop_id)
  show "length (frame_hdr fmt f) = HDR_AFTER_MAGIC fmt"
    using len by (simp add: frame_hdr_def)
  show "length (frame_payload fmt f) = nat (frame_nsamp fmt f * 2)"
    using len by (simp add: frame_payload_def)
  show "length (frame_crc fmt f) = 2"
    using len by (simp add: frame_crc_def)
qed

lemma decode_valid_frame:
  assumes "valid_frame fmt f"
  shows "decode_frame fmt (f @ rest) =
           (Frame (frame_seq fmt f) (frame_nsamp fmt f) (frame_gap fmt f) (frame_payload fmt f), rest)"
proof -
  note sp = valid_frame_split[OF assms]
  have v: "0 < unpack_H (frame_hdr fmt f) 4" "unpack_H (frame_hdr fmt f) 4 \<le> FRAME_SAMPLES fmt"
    "crc16 (MAGIC_B @ frame_hdr fmt f @ frame_payload fmt f) = unpack_H (frame_crc fmt f) 0"
    using assms by (simp_all add: valid_frame_def frame_nsamp_def)
  have "decode_frame fmt (frame_hdr fmt f @ frame_payload fmt f @ frame_crc fmt f @ rest) =
          (Frame (frame_seq fmt f) (frame_nsamp fmt f) (frame_gap fmt f) (frame_payload fmt f), rest)"
    using v sp(3)
    by (subst decode_frame_at[OF sp(2) v(1,2) _ sp(4)])
       (simp_all add: frame_nsamp_def frame_seq_def frame_gap_def)
  then show ?thesis by (subst sp(1)) simp
qed


lemma capture_iter_valid_frame:
  assumes "valid_frame fmt f" "ser s = f @ after"
  shows "capture_iter fmt iters s =
    (let s1 = s\<lparr>ser := after, last_seq := Some (frame_seq fmt f),
                  seq_errors := (if seq_gap (last_seq s) (frame_seq fmt f)
                                 then seq_errors s + 1 else seq_errors s),
                  rows := rows s @ write_rows fmt
                            (if frame_gap fmt f > 0 \<and> total s > 0 then 1 else 0) (total s) 0
                            (frame_samples fmt f),
                  total := total s + nat (frame_nsamp fmt f)\<rparr>
     in case read_exact after 2 of
          (None, ser'') \<Rightarrow> (Raise, s1\<lparr>ser := ser''\<rparr>)
        | (Some nxt, ser'') \<Rightarrow>
            (if nxt \<noteq> MAGIC_B then resync iters (s1\<lparr>ser := ser''\<rparr>)
             else (Continue, s1\<lparr>ser := ser''\<rparr>)))"
  using decode_valid_frame[OF assms(1), of after] assms(2)
  by (cases "read_exact after 2"; cases "fst (read_exact after 2)")
     (simp_all add: capture_iter_def Let_def track_seq_def frame_samples_def unpack_samples_def)

lemma capture_iter_valid_then_magic:
  assumes "valid_frame fmt f" "ser s = f @ MAGIC_B @ rest"
  shows "capture_iter fmt iters s =
    (Continue, s\<lparr>ser := rest, last_seq := Some (frame_seq fmt f),
                  seq_errors := (if seq_gap (last_seq s) (frame_seq fmt f)
                                 then seq_errors s + 1 else seq_errors s),
                  rows := rows s @ write_rows fmt
                            (if frame_gap fmt f > 0 \<and> total s > 0 then 1 else 0) (total s) 0
                            (frame_samples fmt f),
                  total := total s + nat (frame_nsamp fmt f)\<rparr>)"
proof -
  have "read_exact (MAGIC_B @ rest) 2 = (Some MAGIC_B, rest)"
    by (rule read_exact_append) (simp add: MAGIC_B_def)
  then show ?thesis
    by (simp add: capture_iter_valid_frame[OF assms] Let_def)
qed

lemma capture_iter_valid_then_stall:
  assumes "valid_frame fmt f" "ser s = f"
  shows "capture_iter fmt iters s =
    (Raise, s\<lparr>ser := [], last_seq := Some (frame_seq fmt f),
                  seq_errors := (if seq_gap (last_seq s) (frame_seq fmt f)
                                 then seq_errors s + 1 else seq_errors s),
                  rows := rows s @ write_rows fmt
                            (if frame_gap fmt f > 0 \<and> total s > 0 then 1 else 0) (total s) 0
                            (frame_samples fmt f),
                  total := total s + nat (frame_nsamp fmt f)\<rparr>)"
proof -
  have "read_exact [] 2 = (None, [])"
    by (simp add: read_exact_eq)
  moreover have "ser s = f @ []" using assms(2) by simp
  ultimately show ?thesis
    by (simp add: capture_iter_valid_frame[OF assms(1)] Let_def)
qed

lemma capture_loop_two_frames:
  assumes "valid_frame fmt f1" "valid_frame fmt f2" "ser s = f1 @ MAGIC_B @ f2"
  shows "capture_loop fmt iters (Suc (Suc n)) s =
    (SerialTimeout,
     s\<lparr>ser := [], last_seq := Some (frame_seq fmt f2),
       seq_errors := (if seq_gap (last_seq s) (frame_seq fmt f1) then seq_errors s + 1
                      else seq_errors s)
                     + (if seq_gap (Some (frame_seq fmt f1)) (frame_seq fmt f2) then 1 else 0),
       rows := rows s
         @ write_rows fmt (if frame_gap fmt f1 > 0 \<and> total s > 0 then 1 else 0) (total s) 0
             (frame_samples fmt f1)
         @ write_rows fmt (if frame_gap fmt f2 > 0 \<and> total s + nat (frame_nsamp fmt f1) > 0
                           then 1 else 0)
             (total s + nat (frame_nsamp fmt f1)) 0 (frame_samples fmt f2),
       total := total s + nat (frame_nsamp fmt f1) + nat (frame_nsamp fmt f2)\<rparr>)"
proof -
  let ?s1 = "s\<lparr>ser := f2, last_seq := Some (frame_seq fmt f1),
                  seq_errors := (if seq_gap (last_seq s) (frame_seq fmt f1)
                                 then seq_errors s + 1 else seq_errors s),
                  rows := rows s @ write_rows fmt
                            (if frame_gap fmt f1 > 0 \<and> total s > 0 then 1 else 0) (total s) 0
                            (frame_samples fmt f1),
                  total := total s + nat (frame_nsamp fmt f1)\<rparr>"
  have 1: "capture_iter fmt iters s = (Continue, ?s1)"
    by (rule capture_iter_valid_then_magic[OF assms(1,3)])
  have 2: "capture_iter fmt iters ?s1 =
    (Raise, ?s1\<lparr>ser := [], last_seq := Some (frame_seq fmt f2),
                  seq_errors := (if seq_gap (last_seq ?s1) (frame_seq fmt f2)
                                 then seq_errors ?s1 + 1 else seq_errors ?s1),
                  rows := rows ?s1 @ write_rows fmt
                            (if frame_gap fmt f2 > 0 \<and> total ?s1 > 0 then 1 else 0) (total ?s1) 0
                            (frame_samples fmt f2),
                  total := total ?s1 + nat (frame_nsamp fmt f2)\<rparr>)"
    by (rule capture_iter_valid_then_stall[OF assms(2)]) simp
  show ?thesis
    by (simp add: 1 2)
qed

lemma run_capture_two_frames:
  assumes "\<not> contains_magic garbage" "valid_frame fmt f1" "valid_frame fmt f2"
    "length garbage + 2 \<le> lock_iters" "2 \<le> n"
  shows "run_capture fmt lock_iters iters n (garbage @ MAGIC_B @ f1 @ MAGIC_B @ f2) =
     Some (SerialTimeout,
       \<lparr>ser = [], total = nat (frame_nsamp fmt f1) + nat (frame_nsamp fmt f2), bad_crc = 0,
        seq_errors = (if seq_gap (Some (frame_seq fmt f1)) (frame_seq fmt f2) then 1 else 0),
        last_seq = Some (frame_seq fmt f2),
        rows = write_rows fmt 0 0 0 (frame_samples fmt f1)
               @ write_rows fmt (if frame_gap fmt f2 > 0 then 1 else 0)
                   (nat (frame_nsamp fmt f1)) 0 (frame_samples fmt f2),
        syncs = 1\<rparr>)"
proof -
  from assms(5) have "n = Suc (Suc (n - 2))" by simp
  then obtain n' where n: "n = Suc (Suc n')" ..
  have pos: "0 < nat (frame_nsamp fmt f1)"
    using assms(2) by (simp add: valid_frame_def)
  let ?s = "\<lparr>ser = f1 @ MAGIC_B @ f2, total = 0, bad_crc = 0, seq_errors = 0, last_seq = None,
             rows = [], syncs = 1\<rparr>"
  have "sync lock_iters (garbage @ MAGIC_B @ f1 @ MAGIC_B @ f2) = (True, f1 @ MAGIC_B @ f2)"
    by (rule sync_skips_garbage[OF assms(1,4)])
  moreover have "capture_loop fmt iters (Suc (Suc n')) ?s = (SerialTimeout,
       \<lparr>ser = [], total = nat (frame_nsamp fmt f1) + nat (frame_nsamp fmt f2), bad_crc = 0,
        seq_errors = (if seq_gap (Some (frame_seq fmt f1)) (frame_seq fmt f2) then 1 else 0),
        last_seq = Some (frame_seq fmt f2),
        rows = write_rows fmt 0 0 0 (frame_samples fmt f1)
               @ write_rows fmt (if frame_gap fmt f2 > 0 then 1 else 0)
                   (nat (frame_nsamp fmt f1)) 0 (frame_samples fmt f2),
        syncs = 1\<rparr>)"
    using pos
    by (subst capture_loop_two_frames[OF assms(2,3)]) (simp_all add: seq_gap_def)
  ultimately show ?thesis
    by (simp add: run_capture_def n del: capture_loop.simps)
qed


theorem resync_counterexample:
  "run_capture gather_format 20 20 5
     ([0x5A,0xA5] @ MAGIC_B @ [5,0,0,0,1,0,0xFF,0xFF,243,223]
                  @ MAGIC_B @ [6,0,0,0,1,0,0x34,0x12,171,241]) =
   Some (SerialTimeout, \<lparr>ser = [], total = 1, bad_crc = 0, seq_errors = 0, last_seq = Some 6,
                         rows = [[0, 0x234]], syncs = 2\<rparr>)"
  by code_simp


text \<open>
  C9 (amended). For a stream garbage, marker, valid frame, marker, valid frame in which
  the garbage does not contain the marker, and with a lock window long enough to scan
  the garbage and a duration that allows two iterations, the initial sync skips the
  garbage byte by byte and both frames are decoded and all their samples written; the
  stall behind the second frame then ends the session.
\<close>

theorem both_frames_after_garbage:
  assumes "\<not> contains_magic garbage" and "valid_frame fmt f1" and "valid_frame fmt f2"
    and "length garbage + 2 \<le> lock_iters" and "2 \<le> n"
  shows "run_capture fmt lock_iters iters n (garbage @ MAGIC_B @ f1 @ MAGIC_B @ f2) =
     Some (SerialTimeout,
       \<lparr>ser = [], total = nat (frame_nsamp fmt f1) + nat (frame_nsamp fmt f2), bad_crc = 0,
        seq_errors = (if seq_gap (Some (frame_seq fmt f1)) (frame_seq fmt f2) then 1 else 0),
        last_seq = Some (frame_seq fmt f2),
        rows = write_rows fmt 0 0 0 (frame_samples fmt f1)
               @ write_rows fmt (if frame_gap fmt f2 > 0 then 1 else 0)
                   (nat (frame_nsamp fmt f1)) 0 (frame_samples fmt f2),
        syncs = 1\<rparr>)"
  using assms by (rule run_capture_two_frames)

lemma ex_valid_g5: "valid_frame gather_format [5,0,0,0,1,0,0xFF,0xFF,243,223]"
  by (simp add: valid_frame_def frame_nsamp_def frame_hdr_def frame_payload_def frame_crc_def
      gather_format_def MAGIC_B_def crc_eval unpack_eval)

lemma ex_valid_g6: "valid_frame gather_format [6,0,0,0,1,0,0x34,0x12,171,241]"
  by (simp add: valid_frame_def frame_nsamp_def frame_hdr_def frame_payload_def frame_crc_def
      gather_format_def MAGIC_B_def crc_eval unpack_eval)

theorem both_frames_after_garbage_witness:
  "\<not> contains_magic [0x00, 0x5A, 0x13, 0xA5, 0x5A]
   \<and> valid_frame gather_format [5,0,0,0,1,0,0xFF,0xFF,243,223]
   \<and> valid_frame gather_format [6,0,0,0,1,0,0x34,0x12,171,241]
   \<and> run_capture gather_format 7 3 2
        ([0x00, 0x5A, 0x13, 0xA5, 0x5A] @ MAGIC_B @ [5,0,0,0,1,0,0xFF,0xFF,243,223]
           @ MAGIC_B @ [6,0,0,0,1,0,0x34,0x12,171,241]) =
      Some (SerialTimeout, \<lparr>ser = [], total = 2, bad_crc = 0, seq_errors = 0, last_seq = Some 6,
                            rows = [[0, 0xFFF], [1, 0x234]], syncs = 1\<rparr>)"
proof -
  have g: "\<not> contains_magic [0x00, 0x5A, 0x13, 0xA5, 0x5A]"
    by simp
  have l: "length [0x00, 0x5A, 0x13, 0xA5, 0x5A::byte] + 2 \<le> 7" "(2::nat) \<le> 2"
    by simp_all
  show ?thesis
    using both_frames_after_garbage[OF g ex_valid_g5 ex_valid_g6 l, of 3] g ex_valid_g5 ex_valid_g6
    by (simp add: frame_nsamp_def frame_seq_def frame_gap_def frame_samples_def frame_hdr_def
        frame_payload_def gather_format_def unpack_samples_def unpack_eval seq_gap_def
        del: capture_loop.simps)
qed

lemma hex_char_digit:
  assumes "c \<in> set hex_chars"
  shows "\<not> ascii_space c" and "\<exists>h. hex_digit c = Some h"
  using assms by (auto simp: hex_chars_def hex_digit_def ascii_space_def)

lemma fromhex_unhex:
  "list_all (\<lambda>b. b \<in> set hex_chars) raw \<Longrightarrow> even (length raw) \<Longrightarrow>
     fromhex raw = Some (unhex raw)"
proof (induction raw rule: unhex.induct)
  case (1 c d cs)
  then have c: "c \<in> set hex_chars" and d: "d \<in> set hex_chars"
    and cs: "list_all (\<lambda>b. b \<in> set hex_chars) cs" "even (length cs)"
    by simp_all
  from hex_char_digit[OF c] hex_char_digit(2)[OF d] "1.IH"[OF cs]
  show ?case by auto
qed simp_all

lemma length_unhex: "length (unhex raw) = length raw div 2"
  by (induction raw rule: unhex.induct) simp_all

lemma unhex_neq: "raw \<noteq> [] \<Longrightarrow> even (length raw) \<Longrightarrow> unhex raw \<noteq> raw"
proof
  assume a: "raw \<noteq> []" "even (length raw)" "unhex raw = raw"
  then have "length raw div 2 = length raw"
    using length_unhex[of raw] by simp
  moreover have "length raw div 2 < length raw"
    using a(1) by (intro div_less_dividend) simp_all
  ultimately show False by simp
qed

lemma response_buf_Bytes:
  "response_buf (Bytes raw) =
     (if raw = [] then None
      else if even (length raw) \<and> list_all (\<lambda>b. b \<in> set hex_chars) raw then Some (unhex raw)
      else Some raw)"
  by (auto simp: response_buf_def fromhex_unhex)

lemma rpc_parse_buf_Nil: "rpc_parse_buf [] = (None, None)"
  by (simp add: rpc_parse_buf_def rpc_strip_def)

lemma ecg_parse_buf_Nil: "ecg_parse_buf [] = ([], [])"
  by (simp add: ecg_parse_buf_def ecg_strip_def)

text \<open>
  C10. In both RPC parsers a bytes response of even length that consists of ASCII
  hex digits only is decoded as hex text by \<^verbatim>\<open>bytes.fromhex\<close> before the frame is
  parsed, so that such a response is never parsed as the binary it may be (the decoded
  buffer has half its length); every other bytes response is parsed as it is.
\<close>

theorem hex_text_reinterpreted:
  "rpc_parse_frame (Bytes raw) =
      rpc_parse_buf (if even (length raw) \<and> list_all (\<lambda>b. b \<in> set hex_chars) raw
                     then unhex raw else raw)
   \<and> ecg_parse_frame (Bytes raw) =
      ecg_parse_buf (if even (length raw) \<and> list_all (\<lambda>b. b \<in> set hex_chars) raw
                     then unhex raw else raw)
   \<and> (even (length raw) \<and> list_all (\<lambda>b. b \<in> set hex_chars) raw \<longrightarrow>
        fromhex raw = Some (unhex raw) \<and> length (unhex raw) = length raw div 2)
   \<and> (raw \<noteq> [] \<and> even (length raw) \<and> list_all (\<lambda>b. b \<in> set hex_chars) raw \<longrightarrow>
        response_buf (Bytes raw) = Some (unhex raw) \<and> unhex raw \<noteq> raw)
   \<and> (raw \<noteq> [] \<and> \<not> (even (length raw) \<and> list_all (\<lambda>b. b \<in> set hex_chars) raw) \<longrightarrow>
        response_buf (Bytes raw) = Some raw)"
proof -
  have "rpc_parse_frame (Bytes raw) =
      rpc_parse_buf (if even (length raw) \<and> list_all (\<lambda>b. b \<in> set hex_chars) raw
                     then unhex raw else raw)"
    by (cases "raw = []") (simp_all add: rpc_parse_frame_def response_buf_Bytes rpc_parse_buf_Nil)
  moreover have "ecg_parse_frame (Bytes raw) =
      ecg_parse_buf (if even (length raw) \<and> list_all (\<lambda>b. b \<in> set hex_chars) raw
                     then unhex raw else raw)"
    by (cases "raw = []") (simp_all add: ecg_parse_frame_def response_buf_Bytes ecg_parse_buf_Nil)
  ultimately show ?thesis
    using fromhex_unhex[of raw] length_unhex[of raw] unhex_neq[of raw] response_buf_Bytes[of raw]
    by auto
qed


theorem hex_text_reinterpreted_witness:
  "even (length (map of_char ''010005000000ffffc029'' :: byte list))
   \<and> list_all (\<lambda>b. b \<in> set hex_chars) (map of_char ''010005000000ffffc029'' :: byte list)
   \<and> fromhex (map of_char ''010005000000ffffc029'') = Some [1,0,5,0,0,0,0xFF,0xFF,192,41]
   \<and> rpc_parse_frame (Bytes (map of_char ''010005000000ffffc029'')) = (Some 5, Some [0x3FFF])
   \<and> rpc_parse_buf (map of_char ''010005000000ffffc029'') = (None, None)
   \<and> response_buf (Bytes [1,0,5,0,0,0,0xFF,0xFF,192,41]) = Some [1,0,5,0,0,0,0xFF,0xFF,192,41]"
proof -
  have u: "unhex (map of_char ''010005000000ffffc029'') = [1,0,5,0,0,0,0xFF,0xFF,192,41]"
    by (simp add: hex_digit_def hex_chars_def)
  have h: "even (length (map of_char ''010005000000ffffc029'' :: byte list))
     \<and> list_all (\<lambda>b. b \<in> set hex_chars) (map of_char ''010005000000ffffc029'' :: byte list)"
    by (simp add: hex_chars_def)
  have n: "[1,0,5,0,0,0,0xFF,0xFF,192,41::byte] \<noteq> []
     \<and> \<not> (even (length [1,0,5,0,0,0,0xFF,0xFF,192,41::byte])
            \<and> list_all (\<lambda>b. b \<in> set hex_chars) [1,0,5,0,0,0,0xFF,0xFF,192,41::byte])"
    by (simp add: hex_chars_def)
  have p: "rpc_parse_buf (map of_char ''010005000000ffffc029'') = (None, None)"
    by (simp add: rpc_parse_buf_def rpc_strip_def unpack_eval)
  show ?thesis
    using hex_text_reinterpreted[of "map of_char ''010005000000ffffc029''"]
      hex_text_reinterpreted[of "[1,0,5,0,0,0,0xFF,0xFF,192,41]"] h n p
    unfolding u
    by (simp only: ex_rpc_buf_p5 simp_thms if_True if_False)
qed

end
